theory Spec2Isabelle
  imports Complex_Main "HOL-Library.Sublist"
begin

section \<open>Values of the language runtime\<close>

text \<open>
  The column component is TypeScript. Its fields hold strings, numbers, \<open>null\<close> and
  \<open>undefined\<close>, and its branches test truthiness. A string is a list of code units
  below 256. A number is either \<open>NaN\<close> or a finite value, kept as an exact rational:
  the rounding of IEEE doubles and the two infinities are left out (the code divides
  only by 100 and by a column span greater than 1).
\<close>

datatype jsnum = NaN | Fin rat

datatype jsval = Undefined | Null | Num jsnum | Str string

datatype js_error = TypeError

text \<open>
  The conversion of a number to a string belongs to the runtime. The functions that
  concatenate a number with \<open>'px'\<close>, or parse a number as a string, take it as the
  parameter \<open>ts\<close>.
\<close>

type_synonym num_to_string = "jsnum \<Rightarrow> string"

fun truthy_num :: "jsnum \<Rightarrow> bool" where
  "truthy_num NaN = False"
| "truthy_num (Fin r) = (r \<noteq> 0)"

fun truthy :: "jsval \<Rightarrow> bool" where
  "truthy Undefined = False"
| "truthy Null = False"
| "truthy (Num n) = truthy_num n"
| "truthy (Str s) = (s \<noteq> [])"

text \<open>Truthiness of an optional number (\<open>undefined\<close>, \<open>NaN\<close> and 0 are falsy).\<close>

fun truthy_width :: "jsnum option \<Rightarrow> bool" where
  "truthy_width None = False"
| "truthy_width (Some n) = truthy_num n"

text \<open>Truthiness of an optional index and of an optional string.\<close>

fun truthy_index :: "int option \<Rightarrow> bool" where
  "truthy_index None = False"
| "truthy_index (Some n) = (n \<noteq> 0)"

fun truthy_string :: "string option \<Rightarrow> bool" where
  "truthy_string None = False"
| "truthy_string (Some s) = (s \<noteq> [])"

fun is_NaN :: "jsnum \<Rightarrow> bool" where
  "is_NaN NaN = True"
| "is_NaN (Fin r) = False"

text \<open>The global \<open>isNaN\<close> on a field that is a number or still \<open>undefined\<close>.\<close>

fun isNaN :: "jsnum option \<Rightarrow> bool" where
  "isNaN None = True"
| "isNaN (Some n) = is_NaN n"

fun num_sub :: "jsnum \<Rightarrow> jsnum \<Rightarrow> jsnum" where
  "num_sub (Fin a) (Fin b) = Fin (a - b)"
| "num_sub _ _ = NaN"

fun num_mul :: "jsnum \<Rightarrow> jsnum \<Rightarrow> jsnum" where
  "num_mul (Fin a) (Fin b) = Fin (a * b)"
| "num_mul _ _ = NaN"

text \<open>
  Division by an integer. The code never divides by 0; the model returns \<open>NaN\<close>
  there.
\<close>

fun num_div :: "jsnum \<Rightarrow> int \<Rightarrow> jsnum" where
  "num_div (Fin a) d = (if d = 0 then NaN else Fin (a / of_int d))"
| "num_div NaN d = NaN"

subsection \<open>parseInt and parseFloat\<close>

definition StrWhiteSpaceChar :: "char \<Rightarrow> bool" where
  "StrWhiteSpaceChar c \<longleftrightarrow>
     c \<in> {CHR 0x09, CHR 0x0A, CHR 0x0B, CHR 0x0C, CHR 0x0D, CHR 0x20, CHR 0xA0}"

definition DecimalDigit :: "char \<Rightarrow> bool" where
  "DecimalDigit c \<longleftrightarrow> (48::nat) \<le> of_char c \<and> (of_char c :: nat) \<le> 57"

definition digit_value :: "char \<Rightarrow> int" where
  "digit_value c = int (of_char c) - 48"

definition digits_value :: "string \<Rightarrow> int" where
  "digits_value z = foldl (\<lambda>a c. 10 * a + digit_value c) 0 z"

text \<open>The string after its leading white space, and its sign, as both parsers take them.\<close>

definition strip_sign :: "string \<Rightarrow> int \<times> string" where
  "strip_sign t =
     (case t of
        [] \<Rightarrow> (1, [])
      | c # r \<Rightarrow> if c = CHR ''-'' then (- 1, r) else if c = CHR ''+'' then (1, r) else (1, t))"

text \<open>\<open>parseInt(s, 10)\<close> on a string.\<close>

definition parseInt_string :: "string \<Rightarrow> jsnum" where
  "parseInt_string s =
     (let (sign, u) = strip_sign (dropWhile StrWhiteSpaceChar s);
          z = takeWhile DecimalDigit u
      in if z = [] then NaN else Fin (of_int (sign * digits_value z)))"

text \<open>\<open>parseInt(v, 10)\<close> on any value: the value is converted to a string first.\<close>

fun parseInt :: "num_to_string \<Rightarrow> jsval \<Rightarrow> jsnum" where
  "parseInt ts (Str s) = parseInt_string s"
| "parseInt ts (Num n) = parseInt_string (ts n)"
| "parseInt ts Null = parseInt_string ''null''"
| "parseInt ts Undefined = parseInt_string ''undefined''"

text \<open>
  \<open>Number.isNaN(parseFloat(s))\<close>: \<open>parseFloat\<close> reads the longest prefix that is a
  decimal literal; there is none unless, after white space and a sign, the string goes
  on with \<open>Infinity\<close>, with a digit, or with a dot and a digit.
\<close>

definition parseFloat_isNaN :: "string \<Rightarrow> bool" where
  "parseFloat_isNaN s =
     (let (sign, u) = strip_sign (dropWhile StrWhiteSpaceChar s)
      in \<not> (prefix ''Infinity'' u
             \<or> (case u of
                   [] \<Rightarrow> False
                 | d # r \<Rightarrow> DecimalDigit d
                     \<or> (d = CHR ''.'' \<and> (case r of [] \<Rightarrow> False | e # _ \<Rightarrow> DecimalDigit e)))))"

section \<open>The column component and its grid\<close>

text \<open>
  The interface \<open>MRLColumnSizeInfo\<close>, an entry of the size array of a multi-row
  layout. \<open>ref\<close> refers to a child column by its position in \<open>children\<close>;
  \<open>width\<close> is a number or \<open>null\<close>. The column below has fields of the same names
  \<open>colEnd\<close> and \<open>widthSetByUser\<close>: those of an entry are written with the name of
  the interface in front.
\<close>

record MRLColumnSizeInfo =
  ref :: nat
  width :: "jsnum option"
  colSpan :: int
  colEnd :: int
  widthSetByUser :: bool

text \<open>
  The fields of \<open>IgxColumnComponent\<close> that the verified members read or write. A
  leading underscore of the source is written \<open>u_\<close>. A column is referred to by its
  position in the store of columns; \<open>parent\<close> is \<open>null\<close> (\<open>None\<close>) or such a
  reference. \<open>colStart\<close>, \<open>colEnd\<close>, \<open>rowStart\<close> and \<open>rowEnd\<close> are grid
  lines: integers, or \<open>undefined\<close> (\<open>None\<close>). \<open>widthSetByUser\<close> is declared
  without a value: the code only tests and copies it, and the model reads
  \<open>undefined\<close> as \<open>False\<close>.
\<close>

record column =
  colStart :: "int option"
  colEnd :: "int option"
  rowStart :: "int option"
  rowEnd :: "int option"
  widthSetByUser :: bool
  u_width :: "string option"
  defaultWidth :: "string option"
  u_calcWidth :: jsval
  calcPixelWidth :: "jsnum option"
  u_defaultMinWidth :: string
  u_hidden :: bool
  u_pinned :: bool
  u_unpinnedIndex :: "int option"
  parent :: "nat option"

datatype DisplayDensity = comfortable | cosy | compact

text \<open>
  The grid directive is not among the sources. The record holds what its members return
  when the column reads them: the getters \<open>displayDensity\<close>, \<open>columnWidthSetByUser\<close>,
  \<open>calcWidth\<close>, \<open>columns\<close> and \<open>pinnedColumns\<close>, the results of
  \<open>featureColumnsWidth()\<close> and \<open>getPossibleColumnWidth()\<close>, and the fields
  \<open>_init\<close>, \<open>_pinnedColumns\<close> and \<open>_unpinnedColumns\<close> that \<open>pin\<close> and \<open>unpin\<close>
  access directly.
\<close>

record grid =
  displayDensity :: DisplayDensity
  columnWidthSetByUser :: bool
  calcWidth :: jsnum
  featureColumnsWidth :: jsnum
  getPossibleColumnWidth :: string
  columns :: "nat list"
  pinnedColumns :: "nat list"
  u_init :: bool
  u_pinnedColumns :: "nat list"
  u_unpinnedColumns :: "nat list"

subsection \<open>Spans of a column in a multi-row layout\<close>

definition gridRowSpan :: "column \<Rightarrow> int" where
  "gridRowSpan c =
     (case (rowEnd c, rowStart c) of
        (Some e, Some s) \<Rightarrow> if e \<noteq> 0 \<and> s \<noteq> 0 then e - s else 1
      | _ \<Rightarrow> 1)"

definition gridColumnSpan :: "column \<Rightarrow> int" where
  "gridColumnSpan c =
     (case (colEnd c, colStart c) of
        (Some e, Some s) \<Rightarrow> if e \<noteq> 0 \<and> s \<noteq> 0 then e - s else 1
      | _ \<Rightarrow> 1)"

subsection \<open>Minimum width\<close>

definition defaultMinWidth :: "grid option \<Rightarrow> string" where
  "defaultMinWidth g =
     (case g of
        None \<Rightarrow> ''80''
      | Some gr \<Rightarrow>
          (case displayDensity gr of cosy \<Rightarrow> ''64'' | compact \<Rightarrow> ''56'' | comfortable \<Rightarrow> ''80''))"

definition set_minWidth :: "string \<Rightarrow> column \<Rightarrow> column" where
  "set_minWidth v c = (if parseFloat_isNaN v then c else c\<lparr>u_defaultMinWidth := v\<rparr>)"

definition get_minWidth :: "grid option \<Rightarrow> column \<Rightarrow> string" where
  "get_minWidth g c =
     (if u_defaultMinWidth c = [] then defaultMinWidth g else u_defaultMinWidth c)"

subsection \<open>Width and the cached computed width\<close>

definition get_width :: "column \<Rightarrow> string option" where
  "get_width c = (if widthSetByUser c then u_width c else defaultWidth c)"

text \<open>
  \<open>cacheCalcWidth\<close> reads the grid without a guard; it is called with the grid
  attached.
\<close>

definition cacheCalcWidth :: "num_to_string \<Rightarrow> grid \<Rightarrow> column \<Rightarrow> column" where
  "cacheCalcWidth ts g c =
     (let colWidth = get_width c;
          isPercentageWidth = (case colWidth of None \<Rightarrow> False | Some s \<Rightarrow> s \<noteq> [] \<and> CHR ''%'' \<in> set s);
          cw = (if isPercentageWidth
                then Num (num_mul (num_div (parseInt_string (the colWidth)) 100)
                            (num_sub (calcWidth g) (featureColumnsWidth g)))
                else if \<not> truthy_string colWidth
                then (if truthy_string (defaultWidth c) then Str (the (defaultWidth c))
                      else Str (getPossibleColumnWidth g))
                else Str (the (get_width c)))
      in c\<lparr>u_calcWidth := cw, calcPixelWidth := Some (parseInt ts cw)\<rparr>)"

text \<open>
  \<open>getCalcWidth\<close>, the body of the getter \<open>calcWidth\<close>: the value and the column
  with its cache filled.
\<close>

definition getCalcWidth :: "num_to_string \<Rightarrow> grid \<Rightarrow> column \<Rightarrow> jsval \<times> column" where
  "getCalcWidth ts g c =
     (if u_calcWidth c \<noteq> Null \<and> \<not> isNaN (calcPixelWidth c) then (u_calcWidth c, c)
      else let c' = cacheCalcWidth ts g c in (u_calcWidth c', c'))"

text \<open>
  The setter of \<open>width\<close>. The value is typed as a string and may come as a number
  from a template. \<open>widthChange.emit\<close> notifies subscribers outside the component,
  and the decorators of the accessors (\<open>notifyChanges\<close>, \<open>WatchColumnChanges\<close>) are
  defined in other files: the model has the body of the setter.
\<close>

definition set_width :: "num_to_string \<Rightarrow> grid option \<Rightarrow> jsval \<Rightarrow> column \<Rightarrow> column" where
  "set_width ts g v c =
     (if truthy v then
        let c1 = c\<lparr>u_calcWidth := Null, calcPixelWidth := Some NaN, widthSetByUser := True\<rparr>;
            v' = (case v of
                    Num n \<Rightarrow> ts n @ ''px''
                  | Str s \<Rightarrow> if list_all DecimalDigit s then s @ ''px'' else s
                  | _ \<Rightarrow> []);
            c2 = c1\<lparr>u_width := Some v'\<rparr>
        in (case g of None \<Rightarrow> c2 | Some gr \<Rightarrow> cacheCalcWidth ts gr c2)
      else c)"

section \<open>Column sizes of a multi-row layout\<close>

text \<open>
  \<open>columnSizes\<close> is an array of object references with gaps. \<open>slots\<close> maps an index
  to the reference stored there (a write at a negative index sets a property and leaves
  \<open>length\<close> alone, a write past the end extends the array), \<open>len\<close> is its
  \<open>length\<close>, and \<open>heap\<close> holds the objects created so far, a reference being a
  position in it. Two slots may hold the same reference: the first pass copies
  references, and the second pass writes fields through them. The receiver and its
  children are injected with the same grid service: \<open>this.grid\<close> of the method and the
  grid that \<open>col.calcWidth\<close> reads are the one grid \<open>g\<close>.
\<close>

record size_array =
  slots :: "int \<Rightarrow> nat option"
  len :: nat
  heap :: "MRLColumnSizeInfo list"

definition empty_array :: size_array where
  "empty_array = \<lparr>slots = (\<lambda>i. None), len = 0, heap = []\<rparr>"

text \<open>\<open>columnSizes[i]\<close>: the object, or \<open>undefined\<close>.\<close>

definition entry :: "size_array \<Rightarrow> int \<Rightarrow> MRLColumnSizeInfo option" where
  "entry a i =
     (case slots a i of
        None \<Rightarrow> None
      | Some r \<Rightarrow> if r < length (heap a) then Some (heap a ! r) else None)"

text \<open>\<open>columnSizes[i] = o\<close> for an object \<open>o\<close> that exists, and for a new object.\<close>

definition put_ref :: "size_array \<Rightarrow> int \<Rightarrow> nat \<Rightarrow> size_array" where
  "put_ref a i r =
     a\<lparr>slots := (slots a)(i \<mapsto> r),
       len := (if 0 \<le> i then max (len a) (nat i + 1) else len a)\<rparr>"

definition put_new :: "size_array \<Rightarrow> int \<Rightarrow> MRLColumnSizeInfo \<Rightarrow> size_array" where
  "put_new a i e = put_ref (a\<lparr>heap := heap a @ [e]\<rparr>) i (length (heap a))"

text \<open>\<open>columnSizes[i].f = v\<close>: a write to the object that slot \<open>i\<close> refers to.\<close>

definition modify :: "size_array \<Rightarrow> int \<Rightarrow> (MRLColumnSizeInfo \<Rightarrow> MRLColumnSizeInfo) \<Rightarrow> size_array" where
  "modify a i f =
     (case slots a i of
        None \<Rightarrow> a
      | Some r \<Rightarrow> a\<lparr>heap := (heap a)[r := f (heap a ! r)]\<rparr>)"

text \<open>\<open>w / n\<close> for a width that is a number or \<open>null\<close> (which divides as 0).\<close>

definition width_div :: "jsnum option \<Rightarrow> int \<Rightarrow> jsnum" where
  "width_div w n = (case w of None \<Rightarrow> num_div (Fin 0) n | Some x \<Rightarrow> num_div x n)"

text \<open>
  The object literal that the first pass builds for a column \<open>col\<close>, child number
  \<open>k\<close>, whose \<open>colStart\<close> is \<open>s\<close>. Reading \<open>col.calcWidth\<close> may fill the cache of
  the column, so the column is returned too.
\<close>

definition new_info ::
    "num_to_string \<Rightarrow> grid \<Rightarrow> nat \<Rightarrow> int \<Rightarrow> column \<Rightarrow> MRLColumnSizeInfo \<times> column" where
  "new_info ts g k s col =
     (let (w, col') =
            (if widthSetByUser col \<or> columnWidthSetByUser g
             then let (v, c') = getCalcWidth ts g col in (Some (parseInt ts v), c')
             else (None, col))
      in (\<lparr>ref = k, width = w, colSpan = gridColumnSpan col',
           MRLColumnSizeInfo.colEnd = s + gridColumnSpan col',
           MRLColumnSizeInfo.widthSetByUser = widthSetByUser col'\<rparr>, col'))"

text \<open>\<open>!columnSizes[i] || !columnSizes[i].widthSetByUser\<close>\<close>

definition free_slot :: "size_array \<Rightarrow> int \<Rightarrow> bool" where
  "free_slot a i =
     (case entry a i of None \<Rightarrow> True | Some e \<Rightarrow> \<not> MRLColumnSizeInfo.widthSetByUser e)"

text \<open>
  The loop that fills the rest of a replaced, wider column with the old object: \<open>cs\<close>
  is \<open>col.colStart - 1\<close>, and \<open>i\<close> starts at \<open>cs + col.gridColumnSpan\<close>.
\<close>

function fill_old :: "size_array \<Rightarrow> int \<Rightarrow> int \<Rightarrow> size_array" where
  "fill_old a cs i =
     (case entry a cs of
        None \<Rightarrow> a
      | Some old \<Rightarrow>
          if i < MRLColumnSizeInfo.colEnd old - 1
          then (if free_slot a i then fill_old (put_ref a i (the (slots a cs))) cs (i + 1) else a)
          else a)"
  by pat_completeness auto
termination
proof (relation "measure (\<lambda>(a, cs, i). nat (MRLColumnSizeInfo.colEnd (the (entry a cs)) - 1 - i))")
  show "wf (measure (\<lambda>(a, cs, i). nat (MRLColumnSizeInfo.colEnd (the (entry a cs)) - 1 - i)))"
    by simp
next
  fix a :: size_array and cs i :: int and old
  assume old: "entry a cs = Some old" and lt: "i < MRLColumnSizeInfo.colEnd old - 1"
  from old have "entry (put_ref a i (the (slots a cs))) cs = Some old"
    by (auto simp: entry_def put_ref_def split: option.splits if_splits)
  with old lt
  show "((put_ref a i (the (slots a cs)), cs, i + 1), (a, cs, i))
          \<in> measure (\<lambda>(a, cs, i). nat (MRLColumnSizeInfo.colEnd (the (entry a cs)) - 1 - i))"
    by simp
qed

text \<open>
  The loop that fills the places a narrower, earlier column leaves with new objects for
  \<open>col\<close>: \<open>i\<close> starts after the earlier column and stops before \<open>bound\<close>, which is
  \<open>col.colStart - 1 + col.gridColumnSpan\<close>.
\<close>

function fill_new ::
    "num_to_string \<Rightarrow> grid \<Rightarrow> nat \<Rightarrow> int \<Rightarrow> column \<Rightarrow> size_array \<Rightarrow> int \<Rightarrow> int
       \<Rightarrow> size_array \<times> column" where
  "fill_new ts g k s col a i bound =
     (if i < bound
      then (if free_slot a i
            then fill_new ts g k s (snd (new_info ts g k s col))
                   (put_new a i (fst (new_info ts g k s col))) (i + 1) bound
            else (a, col))
      else (a, col))"
  by pat_completeness auto
termination
  by (relation "measure (\<lambda>(ts, g, k, s, col, a, i, bound). nat (bound - i))") auto

text \<open>The callback of \<open>children.forEach\<close>, for child number \<open>k\<close>.\<close>

definition each_child ::
    "num_to_string \<Rightarrow> grid \<Rightarrow> nat \<Rightarrow> column \<Rightarrow> size_array \<Rightarrow> size_array \<times> column" where
  "each_child ts g k col a =
     (case colStart col of
        None \<Rightarrow> (a, col)
      | Some s \<Rightarrow>
          if s = 0 then (a, col)
          else
            let cur = entry a (s - 1);
                span = gridColumnSpan col;
                newWidthSet = (widthSetByUser col
                  \<and> (case cur of None \<Rightarrow> False | Some e \<Rightarrow> \<not> MRLColumnSizeInfo.widthSetByUser e));
                newSpanSmaller = (case cur of None \<Rightarrow> False | Some e \<Rightarrow> colSpan e > span);
                bothWidthsSet = (widthSetByUser col
                  \<and> (case cur of None \<Rightarrow> False | Some e \<Rightarrow> MRLColumnSizeInfo.widthSetByUser e));
                bothWidthsNotSet = (\<not> widthSetByUser col
                  \<and> (case cur of None \<Rightarrow> False | Some e \<Rightarrow> \<not> MRLColumnSizeInfo.widthSetByUser e))
            in case cur of
                 None \<Rightarrow>
                   (put_new a (s - 1) (fst (new_info ts g k s col)), snd (new_info ts g k s col))
               | Some c \<Rightarrow>
                   if newWidthSet \<or> (newSpanSmaller \<and> (bothWidthsSet \<or> bothWidthsNotSet))
                   then
                     let a1 = (if bothWidthsSet \<and> newSpanSmaller
                               then fill_old a (s - 1) (s - 1 + span) else a)
                     in (put_new a1 (s - 1) (fst (new_info ts g k s col)),
                         snd (new_info ts g k s col))
                   else if bothWidthsSet \<and> colSpan c < span
                   then fill_new ts g k s col a (s - 1 + colSpan c) (s - 1 + span)
                   else (a, col))"

fun forEach_child ::
    "num_to_string \<Rightarrow> grid \<Rightarrow> nat \<Rightarrow> column list \<Rightarrow> size_array \<Rightarrow> size_array \<times> column list" where
  "forEach_child ts g k [] a = (a, [])"
| "forEach_child ts g k (col # rest) a =
     (let (a1, col') = each_child ts g k col a;
          (a2, rest') = forEach_child ts g (Suc k) rest a1
      in (a2, col' # rest'))"

text \<open>
  The second pass. \<open>stops_at\<close> is the test under which the inner loop breaks at a
  defined entry \<open>ej\<close> while it spreads \<open>ei\<close>; \<open>flat\<close> is the object written for a
  place that \<open>ei\<close> spans.
\<close>

definition stops_at :: "MRLColumnSizeInfo \<Rightarrow> MRLColumnSizeInfo \<Rightarrow> bool" where
  "stops_at ei ej \<longleftrightarrow>
     (\<not> truthy_width (width ei) \<and> truthy_width (width ej))
     \<or> (\<not> truthy_width (width ei) \<and> \<not> truthy_width (width ej) \<and> colSpan ej \<le> colSpan ei)
     \<or> (truthy_width (width ej) \<and> colSpan ej \<le> colSpan ei)"

definition divided_width :: "MRLColumnSizeInfo \<Rightarrow> jsnum option" where
  "divided_width e =
     (if MRLColumnSizeInfo.widthSetByUser e then Some (width_div (width e) (colSpan e))
      else width e)"

definition flat :: "MRLColumnSizeInfo \<Rightarrow> MRLColumnSizeInfo" where
  "flat ei =
     \<lparr>ref = ref ei, width = divided_width ei, colSpan = 1,
      MRLColumnSizeInfo.colEnd = MRLColumnSizeInfo.colEnd ei,
      MRLColumnSizeInfo.widthSetByUser = MRLColumnSizeInfo.widthSetByUser ei\<rparr>"

text \<open>The inner loop over \<open>j\<close>: the array and the value of \<open>j\<close> it ends with.\<close>

function spread :: "size_array \<Rightarrow> int \<Rightarrow> int \<Rightarrow> size_array \<times> int" where
  "spread a i j =
     (case entry a i of
        None \<Rightarrow> (a, j)
      | Some ei \<Rightarrow>
          if j < colSpan ei \<and> i + j + 1 < MRLColumnSizeInfo.colEnd ei
          then (if (case entry a (i + j) of None \<Rightarrow> False | Some ej \<Rightarrow> stops_at ei ej)
                then (a, j)
                else spread (put_new a (i + j) (flat ei)) i (j + 1))
          else (a, j))"
  by pat_completeness auto
termination
proof (relation "measure (\<lambda>(a, i, j). nat (colSpan (the (entry a i)) - j))")
  show "wf (measure (\<lambda>(a, i, j). nat (colSpan (the (entry a i)) - j)))"
    by simp
next
  fix a :: size_array and i j :: int and ei
  assume ei: "entry a i = Some ei"
    and lt: "j < colSpan ei \<and> i + j + 1 < MRLColumnSizeInfo.colEnd ei"
  from ei have "entry (put_new a (i + j) (flat ei)) i = (if j = 0 then Some (flat ei) else Some ei)"
    by (auto simp: entry_def put_new_def put_ref_def nth_append split: option.splits if_splits)
  with ei lt
  show "((put_new a (i + j) (flat ei), i, j + 1), (a, i, j))
          \<in> measure (\<lambda>(a, i, j). nat (colSpan (the (entry a i)) - j))"
    by (auto simp: flat_def)
qed

text \<open>
  \<open>columnSizes[i].width = ...; columnSizes[i].colSpan = 1\<close>: the two writes that end
  the body of the outer loop.
\<close>

definition set_flat :: "size_array \<Rightarrow> int \<Rightarrow> size_array" where
  "set_flat a i =
     modify (modify a i (\<lambda>e. e\<lparr>width := divided_width e\<rparr>)) i (\<lambda>e. e\<lparr>colSpan := 1\<rparr>)"

text \<open>
  The outer loop of the second pass, from index \<open>i\<close>. It reads \<open>columnSizes.length\<close>
  at every round, and the inner loop may have extended the array.
\<close>

function flatten :: "size_array \<Rightarrow> int \<Rightarrow> size_array" where
  "flatten a i =
     (if i < int (len a)
      then (case entry a i of
              None \<Rightarrow> flatten a (i + 1)
            | Some ei \<Rightarrow>
                if colSpan ei > 1
                then flatten (set_flat (fst (spread a i 1)) i) (i + (snd (spread a i 1) - 1) + 1)
                else flatten a (i + 1))
      else a)"
  by pat_completeness auto
termination
proof (relation "measure (\<lambda>(a, i). nat (int (len a) - i))")
  show "wf (measure (\<lambda>(a, i). nat (int (len a) - i)))"
    by simp
next
  fix a :: size_array and i :: int
  assume "i < int (len a)"
  then show "((a, i + 1), (a, i)) \<in> measure (\<lambda>(a, i). nat (int (len a) - i))"
    by simp
next
  fix a :: size_array and i :: int and ei
  assume "i < int (len a)"
  then show "((a, i + 1), (a, i)) \<in> measure (\<lambda>(a, i). nat (int (len a) - i))"
    by simp
next
  fix a :: size_array and i :: int and ei
  assume lt: "i < int (len a)"
  have sp: "j \<le> snd (spread b i j)
      \<and> int (len (fst (spread b i j))) \<le> max (int (len b)) (i + snd (spread b i j))" for b j
  proof (induction b i j rule: spread.induct)
    case (1 b i j)
    show ?case
    proof (cases "entry b i")
      case None
      then show ?thesis by (simp add: spread.simps [of b i j])
    next
      case (Some e)
      show ?thesis
      proof (cases "j < colSpan e \<and> i + j + 1 < MRLColumnSizeInfo.colEnd e
          \<and> \<not> (case entry b (i + j) of None \<Rightarrow> False | Some ej \<Rightarrow> stops_at e ej)")
        case False
        with Some show ?thesis by (auto simp: spread.simps [of b i j])
      next
        case True
        with Some have eq: "spread b i j = spread (put_new b (i + j) (flat e)) i (j + 1)"
          by (simp add: spread.simps [of b i j])
        from True Some "1.IH" [of e]
        have ih: "j + 1 \<le> snd (spread (put_new b (i + j) (flat e)) i (j + 1))
          \<and> int (len (fst (spread (put_new b (i + j) (flat e)) i (j + 1))))
              \<le> max (int (len (put_new b (i + j) (flat e))))
                   (i + snd (spread (put_new b (i + j) (flat e)) i (j + 1)))"
          by simp
        have "int (len (put_new b (i + j) (flat e))) \<le> max (int (len b)) (i + j + 1)"
          by (auto simp: put_new_def put_ref_def max_def)
        with ih eq show ?thesis by auto
      qed
    qed
  qed
  have "len (set_flat (fst (spread a i 1)) i) = len (fst (spread a i 1))"
    by (simp add: set_flat_def modify_def split: option.splits)
  with sp [of 1 a] lt
  show "((set_flat (fst (spread a i 1)) i, i + (snd (spread a i 1) - 1) + 1), (a, i))
          \<in> measure (\<lambda>(a, i). nat (int (len a) - i))"
    by auto
qed

declare fill_old.simps [simp del] fill_new.simps [simp del] spread.simps [simp del]
  flatten.simps [simp del]

definition getInitialChildColumnSizes ::
    "num_to_string \<Rightarrow> grid \<Rightarrow> column list \<Rightarrow> size_array \<times> column list" where
  "getInitialChildColumnSizes ts g children =
     (let (a, children') = forEach_child ts g 0 children empty_array
      in (flatten a 0, children'))"

definition getFilledChildColumnSizes ::
    "num_to_string \<Rightarrow> grid \<Rightarrow> column list \<Rightarrow> string list \<times> column list" where
  "getFilledChildColumnSizes ts g children =
     (let (a, children') = getInitialChildColumnSizes ts g children;
          result = map (\<lambda>i. case entry a (int i) of
                              None \<Rightarrow> ts (parseInt_string (getPossibleColumnWidth g)) @ ''px''
                            | Some e \<Rightarrow>
                                if truthy_width (width e) then ts (the (width e)) @ ''px''
                                else ts (parseInt_string (getPossibleColumnWidth g)) @ ''px'')
                   [0..<len a]
      in (result, children'))"

text \<open>
  What the first pass reads of a child column: \<open>colStart\<close>, \<open>colEnd\<close>,
  \<open>widthSetByUser\<close> and the value of the getter \<open>calcWidth\<close>. And what it may
  write: two columns are the same but for the cache when they differ at most in
  \<open>_calcWidth\<close> and \<open>calcPixelWidth\<close>.
\<close>

definition layout_inputs :: "num_to_string \<Rightarrow> grid \<Rightarrow> column \<Rightarrow> int option \<times> int option \<times> bool \<times> jsval" where
  "layout_inputs ts g c = (colStart c, colEnd c, widthSetByUser c, fst (getCalcWidth ts g c))"

definition same_but_cache :: "column \<Rightarrow> column \<Rightarrow> bool" where
  "same_but_cache c c' \<longleftrightarrow>
     c'\<lparr>u_calcWidth := u_calcWidth c, calcPixelWidth := calcPixelWidth c\<rparr> = c"

text \<open>
  For the invariants of the two passes. \<open>origin\<close> is the object the first pass
  builds for child \<open>k\<close>; an object of the heap is \<open>tracked\<close> when it is the
  origin of the child it refers to, or that origin flattened.
\<close>

definition origin :: "num_to_string \<Rightarrow> grid \<Rightarrow> column list \<Rightarrow> nat \<Rightarrow> MRLColumnSizeInfo" where
  "origin ts g cs k = fst (new_info ts g k (the (colStart (cs ! k))) (cs ! k))"

definition tracked :: "num_to_string \<Rightarrow> grid \<Rightarrow> column list \<Rightarrow> MRLColumnSizeInfo \<Rightarrow> bool" where
  "tracked ts g cs e \<longleftrightarrow>
     ref e < length cs \<and> (e = origin ts g cs (ref e) \<or> e = flat (origin ts g cs (ref e)))"

text \<open>
  The second pass is done up to index \<open>i\<close> when every slot below \<open>i\<close> refers to
  an object whose \<open>colSpan\<close> is at most 1. Between two of its states the heap only
  grows, and an object is either untouched or has \<open>colSpan\<close> 1.
\<close>

definition small :: "size_array \<Rightarrow> nat \<Rightarrow> bool" where
  "small a r \<longleftrightarrow> (r < length (heap a) \<longrightarrow> colSpan (heap a ! r) \<le> 1)"

definition done_upto :: "size_array \<Rightarrow> int \<Rightarrow> bool" where
  "done_upto a i \<longleftrightarrow> (\<forall>k r. 0 \<le> k \<and> k < i \<and> slots a k = Some r \<longrightarrow> small a r)"

definition grows_flat :: "size_array \<Rightarrow> size_array \<Rightarrow> bool" where
  "grows_flat a a' \<longleftrightarrow>
     length (heap a) \<le> length (heap a')
     \<and> (\<forall>r < length (heap a').
          (r < length (heap a) \<and> heap a' ! r = heap a ! r) \<or> colSpan (heap a' ! r) = 1)"

section \<open>Pinning and unpinning\<close>

text \<open>
  \<open>pin\<close> and \<open>unpin\<close> write the column, follow \<open>parent\<close> to other columns and
  write the grid's two collections. The state they run in is a store of columns
  (\<open>cols\<close>, indexed by the references), the grid object (\<open>grid\<close>), and whether
  \<open>this.grid\<close>, the grid of the injected service, is defined (\<open>attached\<close>). The
  methods take \<open>const grid = this.grid\<close> once and go on using that object.
\<close>

record world =
  cols :: "nat \<Rightarrow> column"
  grid :: grid
  attached :: bool

text \<open>
  The calls that leave the component: methods of the grid directive (\<open>endEdit\<close>,
  \<open>_moveColumns\<close>, \<open>reinitPinStates\<close>, \<open>resetCaches\<close>, \<open>notifyChanges\<close>,
  \<open>filteringService.refreshExpressions\<close>) and the two event emitters. Their code is
  not among the sources: what each does to the state is the parameter \<open>hook_run\<close>, and
  \<open>insertAtIndex\<close> is the index the subscribers of \<open>onColumnPinning\<close> leave in the
  event's arguments, which \<open>pin\<close> reads back after the emit.
\<close>

datatype hook =
    EndEdit bool
  | PinnedChange nat bool
  | OnColumnPinning nat int bool
  | MoveColumns nat "nat option"
  | ReinitPinStates
  | ResetCaches
  | NotifyChanges
  | RefreshExpressions

record env =
  hook_run :: "hook \<Rightarrow> world \<Rightarrow> world"
  insertAtIndex :: "nat \<Rightarrow> int \<Rightarrow> world \<Rightarrow> int"

text \<open>\<open>Array.prototype.indexOf\<close>, an indexed read, and \<open>splice\<close> with its clamped start.\<close>

fun indexOf :: "'a list \<Rightarrow> 'a \<Rightarrow> int" where
  "indexOf [] x = - 1"
| "indexOf (y # ys) x =
     (if y = x then 0 else let i = indexOf ys x in if i < 0 then - 1 else i + 1)"

definition item :: "'a list \<Rightarrow> int \<Rightarrow> 'a option" where
  "item xs i = (if 0 \<le> i \<and> i < int (length xs) then Some (xs ! nat i) else None)"

definition splice_start :: "int \<Rightarrow> nat \<Rightarrow> nat" where
  "splice_start start n =
     (if start < 0 then nat (max (int n + start) 0) else min (nat start) n)"

definition splice_insert :: "int \<Rightarrow> 'a \<Rightarrow> 'a list \<Rightarrow> 'a list" where
  "splice_insert start x xs =
     (let k = splice_start start (length xs) in take k xs @ x # drop k xs)"

definition splice_remove :: "int \<Rightarrow> 'a list \<Rightarrow> 'a list" where
  "splice_remove start xs =
     (let k = splice_start start (length xs) in take k xs @ drop (Suc k) xs)"

text \<open>
  The getters of the class. \<open>columnGroup\<close> and \<open>columnLayout\<close> return
  \<open>false\<close>, \<open>allChildren\<close> returns the empty array and
  \<open>populateVisibleIndexes\<close> has an empty body: the loops of \<open>pin\<close> and
  \<open>unpin\<close> over the children and over the layouts of the grid do nothing for a
  column of this class.
\<close>

definition get_pinned :: "column \<Rightarrow> bool" where
  "get_pinned c = u_pinned c"

definition columnGroup :: "column \<Rightarrow> bool" where
  "columnGroup c = False"

definition pinnable :: "world \<Rightarrow> nat \<Rightarrow> js_error + bool" where
  "pinnable w c =
     (if attached w then Inr (u_init (grid w) \<or> \<not> get_pinned (cols w c)) else Inl TypeError)"

text \<open>
  \<open>topLevelParent\<close> walks up the parents; on a cyclic chain the loop does not
  return (\<open>None\<close>). The result is \<open>null\<close> for a column without a parent.
\<close>

partial_function (option) topLevelParent_loop :: "(nat \<Rightarrow> column) \<Rightarrow> nat \<Rightarrow> nat option" where
  "topLevelParent_loop cs p =
     (case parent (cs p) of None \<Rightarrow> Some p | Some q \<Rightarrow> topLevelParent_loop cs q)"

definition topLevelParent :: "(nat \<Rightarrow> column) \<Rightarrow> nat \<Rightarrow> nat option option" where
  "topLevelParent cs c =
     (case parent (cs c) of
        None \<Rightarrow> Some None
      | Some p \<Rightarrow> map_option Some (topLevelParent_loop cs p))"

definition update_column :: "world \<Rightarrow> nat \<Rightarrow> (column \<Rightarrow> column) \<Rightarrow> world" where
  "update_column w c f = w\<lparr>cols := (cols w)(c := f (cols w c))\<rparr>"

definition update_grid :: "world \<Rightarrow> (grid \<Rightarrow> grid) \<Rightarrow> world" where
  "update_grid w f = w\<lparr>grid := f (grid w)\<rparr>"

text \<open>
  \<open>pin\<close> after its first three checks: from \<open>const grid = this.grid\<close> to the
  end. A property read on an undefined grid raises \<open>TypeError\<close>.
\<close>

definition pin_here :: "env \<Rightarrow> world \<Rightarrow> nat \<Rightarrow> int option \<Rightarrow> js_error + bool \<times> world" where
  "pin_here env w c index =
     (if \<not> attached w then Inl TypeError
      else if (case index of
                 None \<Rightarrow> False
               | Some i \<Rightarrow> i < 0 \<or> i \<ge> int (length (pinnedColumns (grid w))))
      then Inr (False, w)
      else if parent (cols w c) = None \<and> pinnable w c = Inr False then Inr (False, w)
      else
        let w1 = update_column w c (\<lambda>x. x\<lparr>u_pinned := True\<rparr>);
            w2 = hook_run env (PinnedChange c True) w1;
            w3 = update_column w2 c
                   (\<lambda>x. x\<lparr>u_unpinnedIndex := Some (indexOf (u_unpinnedColumns (grid w2)) c)\<rparr>);
            index' = (case index of
                        Some i \<Rightarrow> i
                      | None \<Rightarrow> int (length (u_pinnedColumns (grid w3))));
            targetColumn = item (u_pinnedColumns (grid w3)) index';
            args_insertAtIndex = insertAtIndex env c index' w3;
            w4 = hook_run env (OnColumnPinning c index' True) w3;
            w5 = (if indexOf (u_pinnedColumns (grid w4)) c = - 1
                  then
                    let w' = update_grid w4
                               (\<lambda>g. g\<lparr>u_pinnedColumns :=
                                        splice_insert args_insertAtIndex c (u_pinnedColumns g)\<rparr>)
                    in if indexOf (u_unpinnedColumns (grid w')) c \<noteq> - 1
                       then update_grid w'
                              (\<lambda>g. g\<lparr>u_unpinnedColumns :=
                                       splice_remove (indexOf (u_unpinnedColumns g) c)
                                         (u_unpinnedColumns g)\<rparr>)
                       else w'
                  else w4);
            w6 = (if index \<noteq> None then hook_run env (MoveColumns c targetColumn) w5 else w5);
            w7 = (if columnGroup (cols w6 c) then hook_run env ReinitPinStates w6 else w6);
            w8 = hook_run env ResetCaches w7;
            w9 = hook_run env NotifyChanges w8
        in if attached w9 then Inr (True, hook_run env RefreshExpressions w9)
           else Inl TypeError)"

text \<open>
  \<open>pin(index)\<close>: \<open>None\<close> when the call does not return, otherwise the error
  raised or the boolean returned with the state left.
\<close>

partial_function (option) pin ::
    "env \<Rightarrow> world \<Rightarrow> nat \<Rightarrow> int option \<Rightarrow> (js_error + bool \<times> world) option" where
  "pin env w c index =
     (let w0 = (if attached w then hook_run env (EndEdit True) w else w)
      in if u_pinned (cols w0 c) then Some (Inr (False, w0))
         else if (case parent (cols w0 c) of
                    None \<Rightarrow> False
                  | Some p \<Rightarrow> \<not> get_pinned (cols w0 p))
         then (case topLevelParent (cols w0) c of
                 None \<Rightarrow> None
               | Some None \<Rightarrow> Some (Inl TypeError)
               | Some (Some t) \<Rightarrow> pin env w0 t index)
         else Some (pin_here env w0 c index))"

text \<open>\<open>unpin\<close> after its first three checks.\<close>

definition unpin_here :: "env \<Rightarrow> world \<Rightarrow> nat \<Rightarrow> int option \<Rightarrow> js_error + bool \<times> world" where
  "unpin_here env w c index =
     (if \<not> attached w then Inl TypeError
      else if (case index of
                 None \<Rightarrow> False
               | Some i \<Rightarrow> i < 0 \<or> i \<ge> int (length (u_unpinnedColumns (grid w))))
      then Inr (False, w)
      else
        let index' = (case index of
                        Some i \<Rightarrow> i
                      | None \<Rightarrow>
                          (case u_unpinnedIndex (cols w c) of
                             Some k \<Rightarrow> k
                           | None \<Rightarrow> indexOf (columns (grid w)) c));
            w1 = update_column w c (\<lambda>x. x\<lparr>u_pinned := False\<rparr>);
            w2 = hook_run env (PinnedChange c False) w1;
            targetColumn = item (u_unpinnedColumns (grid w2)) index';
            w3 = update_grid w2
                   (\<lambda>g. g\<lparr>u_unpinnedColumns := splice_insert index' c (u_unpinnedColumns g)\<rparr>);
            w4 = (if indexOf (u_pinnedColumns (grid w3)) c \<noteq> - 1
                  then update_grid w3
                         (\<lambda>g. g\<lparr>u_pinnedColumns :=
                                  splice_remove (indexOf (u_pinnedColumns g) c) (u_pinnedColumns g)\<rparr>)
                  else w3);
            w5 = (if index \<noteq> None then hook_run env (MoveColumns c targetColumn) w4 else w4);
            w6 = hook_run env ReinitPinStates w5;
            w7 = hook_run env ResetCaches w6;
            insertAt = indexOf (u_unpinnedColumns (grid w7)) c;
            w8 = hook_run env (OnColumnPinning c insertAt False) w7;
            w9 = hook_run env NotifyChanges w8
        in if attached w9 then Inr (True, hook_run env RefreshExpressions w9)
           else Inl TypeError)"

partial_function (option) unpin ::
    "env \<Rightarrow> world \<Rightarrow> nat \<Rightarrow> int option \<Rightarrow> (js_error + bool \<times> world) option" where
  "unpin env w c index =
     (let w0 = (if attached w then hook_run env (EndEdit True) w else w)
      in if \<not> u_pinned (cols w0 c) then Some (Inr (False, w0))
         else if (case parent (cols w0 c) of
                    None \<Rightarrow> False
                  | Some p \<Rightarrow> get_pinned (cols w0 p))
         then (case topLevelParent (cols w0) c of
                 None \<Rightarrow> None
               | Some None \<Rightarrow> Some (Inl TypeError)
               | Some (Some t) \<Rightarrow> unpin env w0 t index)
         else Some (unpin_here env w0 c index))"

text \<open>
  What the grid's methods and the subscribers are taken to leave alone: the
  \<open>_pinned\<close> flags, the parents, the attachment of the grid, and the grid's
  \<open>_init\<close>, \<open>pinnedColumns\<close>, \<open>_pinnedColumns\<close> and \<open>_unpinnedColumns\<close>. They
  may change anything else, such as the cached widths.
\<close>

definition pinning_state ::
    "world \<Rightarrow> (nat \<Rightarrow> bool) \<times> (nat \<Rightarrow> nat option) \<times> bool \<times> bool \<times> nat list \<times> nat list \<times> nat list" where
  "pinning_state w =
     (\<lambda>c. u_pinned (cols w c), \<lambda>c. parent (cols w c), attached w, u_init (grid w),
      pinnedColumns (grid w), u_pinnedColumns (grid w), u_unpinnedColumns (grid w))"

definition keeps_pinning :: "env \<Rightarrow> bool" where
  "keeps_pinning env \<longleftrightarrow> (\<forall>h w. pinning_state (hook_run env h w) = pinning_state w)"

section \<open>Examples\<close>

text \<open>
  A conversion of numbers to strings to run the model with: that of the runtime on
  \<open>NaN\<close> and on integers, which is all the examples print.
\<close>

fun digits_of :: "nat \<Rightarrow> nat \<Rightarrow> string" where
  "digits_of 0 n = []"
| "digits_of (Suc fuel) n =
     (if n < 10 then [char_of (48 + n)]
      else digits_of fuel (n div 10) @ [char_of (48 + n mod 10)])"

definition integer_string :: "int \<Rightarrow> string" where
  "integer_string i =
     (if i < 0 then CHR ''-'' # digits_of (Suc (nat (- i))) (nat (- i))
      else digits_of (Suc (nat i)) (nat i))"

fun decimal :: num_to_string where
  "decimal NaN = ''NaN''"
| "decimal (Fin r) = integer_string (floor r)"

text \<open>
  A column as its constructor leaves it (the field initialisers of the class), and a
  grid, for the examples.
\<close>

definition new_column :: column where
  "new_column =
     \<lparr>colStart = None, colEnd = None, rowStart = None, rowEnd = None,
      widthSetByUser = False, u_width = None, defaultWidth = None, u_calcWidth = Null,
      calcPixelWidth = None, u_defaultMinWidth = [], u_hidden = False, u_pinned = False,
      u_unpinnedIndex = None, parent = None\<rparr>"

definition example_grid :: grid where
  "example_grid =
     \<lparr>displayDensity = cosy, columnWidthSetByUser = False, calcWidth = Fin 1000,
      featureColumnsWidth = Fin 0, getPossibleColumnWidth = ''136px'', columns = [0, 1, 2],
      pinnedColumns = [0], u_init = False, u_pinnedColumns = [0],
      u_unpinnedColumns = [1, 2]\<rparr>"

text \<open>
  What a call of \<open>pin\<close> or \<open>unpin\<close> on column \<open>c\<close> returns and leaves: the
  boolean, the getter \<open>pinned\<close> of the column, \<open>_pinnedColumns\<close> and
  \<open>_unpinnedColumns\<close>.
\<close>

definition outcome ::
    "nat \<Rightarrow> (js_error + bool \<times> world) option \<Rightarrow> (js_error + bool \<times> bool \<times> nat list \<times> nat list) option" where
  "outcome c r =
     map_option
       (map_sum id
          (\<lambda>(b, w). (b, get_pinned (cols w c), u_pinnedColumns (grid w), u_unpinnedColumns (grid w))))
       r"

text \<open>
  An environment in which \<open>resetCaches\<close> recomputes the cached width of every column
  and no subscriber changes the insertion index; a grid with column 0 pinned and columns
  1 and 2 unpinned; the same grid with column 1 listed in both collections while its
  \<open>_pinned\<close> flag is false; and the same grid with column 1 listed twice in the
  unpinned collection.
\<close>

definition example_env :: env where
  "example_env =
     \<lparr>hook_run = (\<lambda>h w. case h of
                      ResetCaches \<Rightarrow> w\<lparr>cols := (\<lambda>c. cacheCalcWidth decimal (grid w) (cols w c))\<rparr>
                    | _ \<Rightarrow> w),
      insertAtIndex = (\<lambda>c i w. i)\<rparr>"

definition example_world :: world where
  "example_world =
     \<lparr>cols = (\<lambda>c. new_column)(0 := new_column\<lparr>u_pinned := True\<rparr>),
      grid = example_grid, attached = True\<rparr>"

definition listed_in_both_world :: world where
  "listed_in_both_world =
     example_world\<lparr>grid := example_grid\<lparr>u_pinnedColumns := [0, 1]\<rparr>\<rparr>"

definition listed_twice_world :: world where
  "listed_twice_world =
     example_world\<lparr>grid := example_grid\<lparr>u_unpinnedColumns := [1, 2, 1]\<rparr>\<rparr>"

text \<open>
  The children of a layout: a column over the grid lines 1 to 4 with width 300, a column
  from 1 to 2 with width 50, and two columns without a width, from 2 to 3 and from 6 to
  7. The same children with other fields changed and their caches emptied, and a grid
  whose \<open>columnWidth\<close> the user has set.
\<close>

definition layout_column :: "int \<Rightarrow> int \<Rightarrow> jsval \<Rightarrow> column" where
  "layout_column s e w =
     set_width decimal (Some example_grid) w (new_column\<lparr>colStart := Some s, colEnd := Some e\<rparr>)"

definition example_children :: "column list" where
  "example_children =
     [layout_column 1 4 (Str ''300''), layout_column 1 2 (Str ''50''),
      layout_column 2 3 Undefined, layout_column 6 7 Undefined]"


definition sized_grid :: grid where
  "sized_grid = example_grid\<lparr>columnWidthSetByUser := True\<rparr>"


section \<open>Spans, minimum width and width\<close>

lemma parseFloat_isNaN_empty: "parseFloat_isNaN []"
  by (simp add: parseFloat_isNaN_def strip_sign_def)

text \<open>
  C6. In a multi-row layout the spans derive from the start and end indices:
  \<open>gridColumnSpan\<close> is \<open>colEnd - colStart\<close> when both are set (truthy) and 1
  otherwise, and \<open>gridRowSpan\<close> is \<open>rowEnd - rowStart\<close> when both are set and 1
  otherwise.
\<close>

theorem C6_spans:
  "gridColumnSpan c =
     (if truthy_index (colEnd c) \<and> truthy_index (colStart c)
      then the (colEnd c) - the (colStart c) else 1)
   \<and> gridRowSpan c =
     (if truthy_index (rowEnd c) \<and> truthy_index (rowStart c)
      then the (rowEnd c) - the (rowStart c) else 1)"
proof -
  have col: "gridColumnSpan c =
     (if truthy_index (colEnd c) \<and> truthy_index (colStart c)
      then the (colEnd c) - the (colStart c) else 1)"
    by (cases "colEnd c"; cases "colStart c") (simp_all add: gridColumnSpan_def)
  have row: "gridRowSpan c =
     (if truthy_index (rowEnd c) \<and> truthy_index (rowStart c)
      then the (rowEnd c) - the (rowStart c) else 1)"
    by (cases "rowEnd c"; cases "rowStart c") (simp_all add: gridRowSpan_def)
  from col row show ?thesis by simp
qed

theorem C6_spans_witness:
  "gridColumnSpan (new_column\<lparr>colStart := Some 2, colEnd := Some 5\<rparr>) = 3
   \<and> gridRowSpan (new_column\<lparr>colStart := Some 2, colEnd := Some 5\<rparr>) = 1
   \<and> gridColumnSpan (new_column\<lparr>colStart := Some 0, colEnd := Some 5\<rparr>) = 1
   \<and> gridRowSpan (new_column\<lparr>rowStart := Some 1, rowEnd := Some 3\<rparr>) = 2"
  using C6_spans [of "new_column\<lparr>colStart := Some 2, colEnd := Some 5\<rparr>"]
    C6_spans [of "new_column\<lparr>colStart := Some 0, colEnd := Some 5\<rparr>"]
    C6_spans [of "new_column\<lparr>rowStart := Some 1, rowEnd := Some 3\<rparr>"]
  by (simp add: new_column_def)

lemma parseFloat_number_nonempty: "\<not> parseFloat_isNaN v \<Longrightarrow> v \<noteq> []"
  using parseFloat_isNaN_empty by auto

text \<open>
  C5. An invalid minimum width is rejected by the guard of the setter: for every column
  and every string whose numeric parse is \<open>NaN\<close>, the assignment leaves the stored
  minimum width (and the whole column) unchanged, so the getter of \<open>minWidth\<close>
  returns what it returned before; for every string that parses to a number, the getter
  afterwards returns exactly the assigned string.
\<close>

theorem C5_minWidth:
  "(parseFloat_isNaN v \<longrightarrow>
      u_defaultMinWidth (set_minWidth v c) = u_defaultMinWidth c
      \<and> set_minWidth v c = c
      \<and> get_minWidth g (set_minWidth v c) = get_minWidth g c)
   \<and> (\<not> parseFloat_isNaN v \<longrightarrow> get_minWidth g (set_minWidth v c) = v)"
proof (cases "parseFloat_isNaN v")
  case True
  then show ?thesis by (simp add: set_minWidth_def)
next
  case False
  then have "v \<noteq> []" by (rule parseFloat_number_nonempty)
  with False show ?thesis by (simp add: set_minWidth_def get_minWidth_def)
qed

theorem C5_minWidth_witness:
  "parseFloat_isNaN ''wide''
   \<and> get_minWidth (Some example_grid) (set_minWidth ''wide'' new_column) = ''64''
   \<and> \<not> parseFloat_isNaN '' 15%''
   \<and> get_minWidth (Some example_grid) (set_minWidth '' 15%'' new_column) = '' 15%''"
proof -
  have nan: "parseFloat_isNaN ''wide''"
    by (simp add: parseFloat_isNaN_def strip_sign_def StrWhiteSpaceChar_def DecimalDigit_def)
  have num: "\<not> parseFloat_isNaN '' 15%''"
    by (simp add: parseFloat_isNaN_def strip_sign_def StrWhiteSpaceChar_def DecimalDigit_def)
  have before: "get_minWidth (Some example_grid) new_column = ''64''"
    by (simp add: get_minWidth_def defaultMinWidth_def new_column_def example_grid_def)
  from nan num before
    C5_minWidth [of "''wide''" new_column "Some example_grid"]
    C5_minWidth [of "'' 15%''" new_column "Some example_grid"]
  show ?thesis by simp
qed

lemma cacheCalcWidth_fields:
  "u_width (cacheCalcWidth ts g c) = u_width c"
  "widthSetByUser (cacheCalcWidth ts g c) = widthSetByUser c"
  "defaultWidth (cacheCalcWidth ts g c) = defaultWidth c"
  by (simp_all add: cacheCalcWidth_def Let_def)

text \<open>
  C9. The setter of \<open>width\<close> normalises the value and records that the user set
  it: for a truthy value, a number or a string of digits only is stored with \<open>'px'\<close>
  appended and any other string is stored as it is; in both cases \<open>widthSetByUser\<close>
  becomes true and the getter of \<open>width\<close> returns the stored value. A falsy value
  (the empty string, \<open>null\<close>, \<open>undefined\<close>) changes neither the stored width nor
  \<open>widthSetByUser\<close>: the column stays as it was.
\<close>

theorem C9_set_width:
  "(truthy v \<longrightarrow>
      (\<forall>n. v = Num n \<longrightarrow> u_width (set_width ts g v c) = Some (ts n @ ''px''))
      \<and> (\<forall>s. v = Str s \<and> list_all DecimalDigit s \<longrightarrow>
            u_width (set_width ts g v c) = Some (s @ ''px''))
      \<and> (\<forall>s. v = Str s \<and> \<not> list_all DecimalDigit s \<longrightarrow>
            u_width (set_width ts g v c) = Some s)
      \<and> widthSetByUser (set_width ts g v c)
      \<and> get_width (set_width ts g v c) = u_width (set_width ts g v c))
   \<and> (\<not> truthy v \<longrightarrow>
      set_width ts g v c = c
      \<and> u_width (set_width ts g v c) = u_width c
      \<and> widthSetByUser (set_width ts g v c) = widthSetByUser c)"
proof (cases "truthy v")
  case False
  then show ?thesis by (simp add: set_width_def)
next
  case True
  then show ?thesis
    by (cases g; cases v)
      (simp_all add: set_width_def Let_def get_width_def cacheCalcWidth_fields)
qed

theorem C9_set_width_witness:
  "u_width (set_width decimal (Some example_grid) (Num (Fin 120)) new_column) = Some ''120px''
   \<and> get_width (set_width decimal (Some example_grid) (Str ''250'') new_column) = Some ''250px''
   \<and> get_width (set_width decimal None (Str ''25%'') new_column) = Some ''25%''
   \<and> widthSetByUser (set_width decimal None (Str ''25%'') new_column)
   \<and> set_width decimal (Some example_grid) (Str []) new_column = new_column
   \<and> set_width decimal (Some example_grid) Null new_column = new_column"
proof -
  have d: "list_all DecimalDigit ''250''" "\<not> list_all DecimalDigit ''25%''"
    by (simp_all add: DecimalDigit_def)
  have n: "decimal (Fin 120) = ''120''"
    by code_simp
  from d n
    C9_set_width [of "Num (Fin 120)" decimal "Some example_grid" new_column]
    C9_set_width [of "Str ''250''" decimal "Some example_grid" new_column]
    C9_set_width [of "Str ''25%''" decimal None new_column]
    C9_set_width [of "Str []" decimal "Some example_grid" new_column]
    C9_set_width [of Null decimal "Some example_grid" new_column]
  show ?thesis by simp
qed

section \<open>Column sizes of a multi-row layout: the claims\<close>

subsection \<open>The filled sizes\<close>

lemma all_less_4: "(\<forall>i < (4::nat). P i) \<longleftrightarrow> P 0 \<and> P 1 \<and> P 2 \<and> P 3"
proof -
  have "i < 4 \<longleftrightarrow> i = 0 \<or> i = 1 \<or> i = 2 \<or> i = 3" for i :: nat
    by auto
  then show ?thesis by auto
qed

text \<open>
  C7. The sizing output is fully filled: \<open>getFilledChildColumnSizes\<close> returns one
  string per entry of the reconciled size array, every string ends in \<open>'px'\<close>, an
  entry whose reconciled width is absent (a gap, \<open>null\<close>, \<open>NaN\<close> or 0) is replaced
  by the grid's possible column width in pixels, and an entry with a width gives that
  width in pixels; no gap remains.
\<close>

theorem C7_filled:
  "length (fst (getFilledChildColumnSizes ts g children))
     = len (fst (getInitialChildColumnSizes ts g children))
   \<and> (\<forall>s \<in> set (fst (getFilledChildColumnSizes ts g children)). suffix ''px'' s)
   \<and> (\<forall>i < len (fst (getInitialChildColumnSizes ts g children)).
        (case entry (fst (getInitialChildColumnSizes ts g children)) (int i) of
           None \<Rightarrow> True
         | Some e \<Rightarrow> \<not> truthy_width (width e))
        \<longrightarrow> fst (getFilledChildColumnSizes ts g children) ! i
              = ts (parseInt_string (getPossibleColumnWidth g)) @ ''px'')
   \<and> (\<forall>i < len (fst (getInitialChildColumnSizes ts g children)).
        \<forall>e. entry (fst (getInitialChildColumnSizes ts g children)) (int i) = Some e
              \<and> truthy_width (width e)
        \<longrightarrow> fst (getFilledChildColumnSizes ts g children) ! i = ts (the (width e)) @ ''px'')"
proof -
  obtain a cs where init: "getInitialChildColumnSizes ts g children = (a, cs)"
    by (cases "getInitialChildColumnSizes ts g children")
  let ?fill = "\<lambda>i. case entry a (int i) of
      None \<Rightarrow> ts (parseInt_string (getPossibleColumnWidth g)) @ ''px''
    | Some e \<Rightarrow> if truthy_width (width e) then ts (the (width e)) @ ''px''
               else ts (parseInt_string (getPossibleColumnWidth g)) @ ''px''"
  have res: "fst (getFilledChildColumnSizes ts g children) = map ?fill [0..<len a]"
    by (simp add: getFilledChildColumnSizes_def init)
  have px: "suffix ''px'' (?fill i)" for i
    by (auto simp: suffix_def split: option.splits)
  have 1: "length (fst (getFilledChildColumnSizes ts g children)) = len a"
    by (simp add: res)
  have 2: "\<forall>s \<in> set (fst (getFilledChildColumnSizes ts g children)). suffix ''px'' s"
    unfolding res using px by auto
  have 3: "\<forall>i < len a. (case entry a (int i) of None \<Rightarrow> True | Some e \<Rightarrow> \<not> truthy_width (width e))
        \<longrightarrow> fst (getFilledChildColumnSizes ts g children) ! i
              = ts (parseInt_string (getPossibleColumnWidth g)) @ ''px''"
    by (auto simp: res split: option.splits)
  have 4: "\<forall>i < len a. \<forall>e. entry a (int i) = Some e \<and> truthy_width (width e)
        \<longrightarrow> fst (getFilledChildColumnSizes ts g children) ! i = ts (the (width e)) @ ''px''"
    by (auto simp: res)
  from 1 2 3 4 show ?thesis by (simp add: init)
qed

theorem C7_filled_witness:
  "length (fst (getFilledChildColumnSizes decimal example_grid example_children)) = 6
   \<and> fst (getFilledChildColumnSizes decimal example_grid example_children) ! 1 = ''100px''
   \<and> fst (getFilledChildColumnSizes decimal example_grid example_children) ! 3 = ''136px''
   \<and> fst (getFilledChildColumnSizes decimal example_grid example_children) ! 5 = ''136px''
   \<and> suffix ''px'' (fst (getFilledChildColumnSizes decimal example_grid example_children) ! 3)"
proof -
  let ?a = "fst (getInitialChildColumnSizes decimal example_grid example_children)"
  have n: "len ?a = 6"
    by code_simp
  have e: "entry ?a 1 = Some \<lparr>ref = 0, width = Some (Fin 100), colSpan = 1,
        MRLColumnSizeInfo.colEnd = 4, MRLColumnSizeInfo.widthSetByUser = True\<rparr>"
      "entry ?a 3 = None"
      "entry ?a 5 = Some \<lparr>ref = 3, width = None, colSpan = 1,
        MRLColumnSizeInfo.colEnd = 7, MRLColumnSizeInfo.widthSetByUser = False\<rparr>"
    by code_simp+
  have s: "decimal (parseInt_string (getPossibleColumnWidth example_grid)) = ''136''"
    "decimal (Fin 100) = ''100''"
    by code_simp+
  from C7_filled [of decimal example_grid example_children] n
  have len6: "length (fst (getFilledChildColumnSizes decimal example_grid example_children)) = 6"
    and px: "\<forall>s \<in> set (fst (getFilledChildColumnSizes decimal example_grid example_children)).
               suffix ''px'' s"
    and gap: "\<forall>i < 6. (case entry ?a (int i) of None \<Rightarrow> True | Some e \<Rightarrow> \<not> truthy_width (width e))
        \<longrightarrow> fst (getFilledChildColumnSizes decimal example_grid example_children) ! i
              = decimal (parseInt_string (getPossibleColumnWidth example_grid)) @ ''px''"
    and set: "\<forall>i < 6. \<forall>e. entry ?a (int i) = Some e \<and> truthy_width (width e)
        \<longrightarrow> fst (getFilledChildColumnSizes decimal example_grid example_children) ! i
              = decimal (the (width e)) @ ''px''"
    by simp_all
  from gap e s have g3: "fst (getFilledChildColumnSizes decimal example_grid example_children) ! 3 = ''136px''"
    and g5: "fst (getFilledChildColumnSizes decimal example_grid example_children) ! 5 = ''136px''"
    by (auto dest!: spec [of _ 3] spec [of _ 5])
  from set e s have g1: "fst (getFilledChildColumnSizes decimal example_grid example_children) ! 1 = ''100px''"
    by (auto dest!: spec [of _ 1])
  from len6 g1 g3 g5 show ?thesis by (simp add: suffix_def)
qed

subsection \<open>What the method writes\<close>

lemma same_but_cache_refl: "same_but_cache c c"
  by (simp add: same_but_cache_def)

lemma same_but_cache_trans:
  assumes "same_but_cache c c'" and "same_but_cache c' c''"
  shows "same_but_cache c c''"
proof -
  from assms have 1: "c'\<lparr>u_calcWidth := u_calcWidth c, calcPixelWidth := calcPixelWidth c\<rparr> = c"
    and 2: "c''\<lparr>u_calcWidth := u_calcWidth c', calcPixelWidth := calcPixelWidth c'\<rparr> = c'"
    by (simp_all add: same_but_cache_def)
  have "c''\<lparr>u_calcWidth := u_calcWidth c, calcPixelWidth := calcPixelWidth c\<rparr>
      = (c''\<lparr>u_calcWidth := u_calcWidth c', calcPixelWidth := calcPixelWidth c'\<rparr>)
          \<lparr>u_calcWidth := u_calcWidth c, calcPixelWidth := calcPixelWidth c\<rparr>"
    by simp
  also have "\<dots> = c'\<lparr>u_calcWidth := u_calcWidth c, calcPixelWidth := calcPixelWidth c\<rparr>"
    by (simp only: 2)
  also have "\<dots> = c" by (rule 1)
  finally show ?thesis by (simp add: same_but_cache_def)
qed

lemma same_but_cache_cacheCalcWidth: "same_but_cache c (cacheCalcWidth ts g c)"
  by (simp add: same_but_cache_def cacheCalcWidth_def Let_def)

lemma same_but_cache_getCalcWidth: "same_but_cache c (snd (getCalcWidth ts g c))"
  by (simp add: getCalcWidth_def Let_def same_but_cache_refl same_but_cache_cacheCalcWidth)

lemma same_but_cache_new_info: "same_but_cache c (snd (new_info ts g k s c))"
  by (simp add: new_info_def Let_def split_beta same_but_cache_refl same_but_cache_getCalcWidth)

lemma same_but_cache_fill_new: "same_but_cache c (snd (fill_new ts g k s c a i b))"
proof (induction ts g k s c a i b rule: fill_new.induct)
  case (1 ts g k s col a i bound)
  show ?case
  proof (cases "i < bound \<and> free_slot a i")
    case False
    then show ?thesis by (auto simp: fill_new.simps [of ts g k s col a i bound] same_but_cache_refl)
  next
    case True
    with "1.IH" have "same_but_cache (snd (new_info ts g k s col))
        (snd (fill_new ts g k s (snd (new_info ts g k s col))
               (put_new a i (fst (new_info ts g k s col))) (i + 1) bound))"
      by simp
    with same_but_cache_new_info [of col ts g k s] True show ?thesis
      by (auto simp: fill_new.simps [of ts g k s col a i bound] intro: same_but_cache_trans)
  qed
qed

lemma same_but_cache_each_child: "same_but_cache c (snd (each_child ts g k c a))"
  by (auto simp: each_child_def Let_def same_but_cache_refl same_but_cache_new_info
      same_but_cache_fill_new split: option.splits)

lemma same_but_cache_forEach_child:
  "list_all2 same_but_cache cs (snd (forEach_child ts g k cs a))"
proof (induction cs arbitrary: k a)
  case Nil
  show ?case by simp
next
  case (Cons c cs)
  then show ?case
    by (simp add: split_beta Let_def same_but_cache_each_child)
qed

lemma same_but_cache_fields:
  assumes "same_but_cache c c'"
  shows "colStart c' = colStart c" "colEnd c' = colEnd c" "rowStart c' = rowStart c"
    "rowEnd c' = rowEnd c" "widthSetByUser c' = widthSetByUser c" "u_width c' = u_width c"
    "defaultWidth c' = defaultWidth c" "u_hidden c' = u_hidden c" "u_pinned c' = u_pinned c"
    "parent c' = parent c" "u_defaultMinWidth c' = u_defaultMinWidth c"
    "u_unpinnedIndex c' = u_unpinnedIndex c"
proof -
  from assms have eq: "c = c'\<lparr>u_calcWidth := u_calcWidth c, calcPixelWidth := calcPixelWidth c\<rparr>"
    by (simp add: same_but_cache_def)
  show "colStart c' = colStart c" by (subst eq) simp
  show "colEnd c' = colEnd c" by (subst eq) simp
  show "rowStart c' = rowStart c" by (subst eq) simp
  show "rowEnd c' = rowEnd c" by (subst eq) simp
  show "widthSetByUser c' = widthSetByUser c" by (subst eq) simp
  show "u_width c' = u_width c" by (subst eq) simp
  show "defaultWidth c' = defaultWidth c" by (subst eq) simp
  show "u_hidden c' = u_hidden c" by (subst eq) simp
  show "u_pinned c' = u_pinned c" by (subst eq) simp
  show "parent c' = parent c" by (subst eq) simp
  show "u_defaultMinWidth c' = u_defaultMinWidth c" by (subst eq) simp
  show "u_unpinnedIndex c' = u_unpinnedIndex c" by (subst eq) simp
qed

text \<open>
  C2. \<open>getInitialChildColumnSizes\<close> leaves \<open>colStart\<close>, \<open>colEnd\<close>,
  \<open>rowStart\<close>, \<open>rowEnd\<close>, \<open>width\<close>, \<open>widthSetByUser\<close>, \<open>hidden\<close>,
  \<open>pinned\<close> and \<open>parent\<close> of every child column unchanged, and builds and returns
  a new array. The only fields of a child it may write are the two of the cache of the
  computed width, \<open>_calcWidth\<close> and \<open>calcPixelWidth\<close>, which the getter
  \<open>calcWidth\<close> fills when it is read: with them reset, the child is as it was. The
  method reads nothing of its receiver but the grid, and the model has no write to it.
\<close>

theorem C2_children_kept:
  "length (snd (getInitialChildColumnSizes ts g children)) = length children
   \<and> (\<forall>i < length children.
        colStart (snd (getInitialChildColumnSizes ts g children) ! i) = colStart (children ! i)
        \<and> colEnd (snd (getInitialChildColumnSizes ts g children) ! i) = colEnd (children ! i)
        \<and> rowStart (snd (getInitialChildColumnSizes ts g children) ! i) = rowStart (children ! i)
        \<and> rowEnd (snd (getInitialChildColumnSizes ts g children) ! i) = rowEnd (children ! i)
        \<and> get_width (snd (getInitialChildColumnSizes ts g children) ! i) = get_width (children ! i)
        \<and> widthSetByUser (snd (getInitialChildColumnSizes ts g children) ! i)
            = widthSetByUser (children ! i)
        \<and> u_hidden (snd (getInitialChildColumnSizes ts g children) ! i) = u_hidden (children ! i)
        \<and> get_pinned (snd (getInitialChildColumnSizes ts g children) ! i)
            = get_pinned (children ! i)
        \<and> parent (snd (getInitialChildColumnSizes ts g children) ! i) = parent (children ! i)
        \<and> (snd (getInitialChildColumnSizes ts g children) ! i)
             \<lparr>u_calcWidth := u_calcWidth (children ! i),
              calcPixelWidth := calcPixelWidth (children ! i)\<rparr> = children ! i)"
proof -
  let ?cs = "snd (getInitialChildColumnSizes ts g children)"
  have "?cs = snd (forEach_child ts g 0 children empty_array)"
    by (simp add: getInitialChildColumnSizes_def split_beta)
  then have all: "list_all2 same_but_cache children ?cs"
    by (simp add: same_but_cache_forEach_child)
  then have len: "length ?cs = length children"
    by (simp add: list_all2_lengthD)
  have "colStart (?cs ! i) = colStart (children ! i)
        \<and> colEnd (?cs ! i) = colEnd (children ! i)
        \<and> rowStart (?cs ! i) = rowStart (children ! i)
        \<and> rowEnd (?cs ! i) = rowEnd (children ! i)
        \<and> get_width (?cs ! i) = get_width (children ! i)
        \<and> widthSetByUser (?cs ! i) = widthSetByUser (children ! i)
        \<and> u_hidden (?cs ! i) = u_hidden (children ! i)
        \<and> get_pinned (?cs ! i) = get_pinned (children ! i)
        \<and> parent (?cs ! i) = parent (children ! i)
        \<and> (?cs ! i)\<lparr>u_calcWidth := u_calcWidth (children ! i),
              calcPixelWidth := calcPixelWidth (children ! i)\<rparr> = children ! i"
    if "i < length children" for i
  proof -
    from all that have s: "same_but_cache (children ! i) (?cs ! i)"
      by (rule list_all2_nthD)
    from same_but_cache_fields [OF s] s show ?thesis
      by (simp add: get_width_def get_pinned_def same_but_cache_def)
  qed
  with len show ?thesis by simp
qed

theorem C2_children_kept_witness:
  "length (snd (getInitialChildColumnSizes decimal sized_grid example_children)) = 4
   \<and> colStart (snd (getInitialChildColumnSizes decimal sized_grid example_children) ! 2) = Some 2
   \<and> get_width (snd (getInitialChildColumnSizes decimal sized_grid example_children) ! 0)
       = Some ''300px''
   \<and> \<not> get_pinned (snd (getInitialChildColumnSizes decimal sized_grid example_children) ! 2)
   \<and> (snd (getInitialChildColumnSizes decimal sized_grid example_children) ! 3)
        \<lparr>u_calcWidth := Null, calcPixelWidth := None\<rparr> = example_children ! 3"
proof -
  have f: "length example_children = 4" "colStart (example_children ! 2) = Some 2"
    "get_width (example_children ! 0) = Some ''300px''"
    "\<not> get_pinned (example_children ! 2)"
    "u_calcWidth (example_children ! 3) = Null" "calcPixelWidth (example_children ! 3) = None"
    by code_simp+
  from C2_children_kept [of decimal sized_grid example_children] f show ?thesis
    by (simp add: all_less_4)
qed

text \<open>
  The claim as it was stated, every field of every child unchanged, fails: the grid has
  \<open>columnWidthSetByUser\<close>, the fourth child has no width and an empty cache, and the
  call fills its \<open>_calcWidth\<close> and its public \<open>calcPixelWidth\<close>.
\<close>

theorem C2_children_kept_counterexample:
  "calcPixelWidth (example_children ! 3) = None
   \<and> calcPixelWidth (snd (getInitialChildColumnSizes decimal sized_grid example_children) ! 3)
       = Some (Fin 136)
   \<and> u_calcWidth (example_children ! 3) = Null
   \<and> u_calcWidth (snd (getInitialChildColumnSizes decimal sized_grid example_children) ! 3)
       = Str ''136px''"
  by code_simp

subsection \<open>What the method reads\<close>

lemma cacheCalcWidth_again:
  "u_calcWidth (cacheCalcWidth ts g (cacheCalcWidth ts g c)) = u_calcWidth (cacheCalcWidth ts g c)"
  by (simp add: cacheCalcWidth_def Let_def get_width_def)

lemma getCalcWidth_again:
  "fst (getCalcWidth ts g (snd (getCalcWidth ts g c))) = fst (getCalcWidth ts g c)"
  by (simp add: getCalcWidth_def Let_def cacheCalcWidth_again)

lemma layout_inputs_getCalcWidth:
  "layout_inputs ts g (snd (getCalcWidth ts g c)) = layout_inputs ts g c"
  using same_but_cache_fields [OF same_but_cache_getCalcWidth [of c ts g]]
  by (simp add: layout_inputs_def getCalcWidth_again)

lemma layout_inputs_span:
  "layout_inputs ts g c1 = layout_inputs ts g c2 \<Longrightarrow> gridColumnSpan c1 = gridColumnSpan c2"
  by (simp add: layout_inputs_def gridColumnSpan_def)

lemma new_info_inputs:
  assumes "layout_inputs ts g c1 = layout_inputs ts g c2"
  shows "fst (new_info ts g k s c1) = fst (new_info ts g k s c2)"
    and "layout_inputs ts g (snd (new_info ts g k s c1)) = layout_inputs ts g (snd (new_info ts g k s c2))"
proof -
  from assms have f: "colStart c1 = colStart c2" "colEnd c1 = colEnd c2"
    "widthSetByUser c1 = widthSetByUser c2"
    "fst (getCalcWidth ts g c1) = fst (getCalcWidth ts g c2)"
    by (simp_all add: layout_inputs_def)
  have keep: "layout_inputs ts g (snd (new_info ts g k s c)) = layout_inputs ts g c" for c
    by (simp add: new_info_def Let_def split_beta layout_inputs_getCalcWidth)
  from keep [of c1] keep [of c2] assms
  show "layout_inputs ts g (snd (new_info ts g k s c1)) = layout_inputs ts g (snd (new_info ts g k s c2))"
    by simp
  have g: "gridColumnSpan (snd (getCalcWidth ts g c)) = gridColumnSpan c"
    "widthSetByUser (snd (getCalcWidth ts g c)) = widthSetByUser c" for c
    using same_but_cache_fields [OF same_but_cache_getCalcWidth [of c ts g]]
    by (simp_all add: gridColumnSpan_def)
  from f layout_inputs_span [OF assms]
  show "fst (new_info ts g k s c1) = fst (new_info ts g k s c2)"
    by (simp add: new_info_def Let_def split_beta g)
qed






subsection \<open>The first pass creates one kind of object per child\<close>

lemma new_info_keeps_inputs:
  "layout_inputs ts g (snd (new_info ts g k s c)) = layout_inputs ts g c"
  by (simp add: new_info_def Let_def split_beta layout_inputs_getCalcWidth)

lemma heap_put_ref: "heap (put_ref a i r) = heap a"
  by (simp add: put_ref_def)

lemma heap_put_new: "heap (put_new a i e) = heap a @ [e]"
  by (simp add: put_new_def put_ref_def)

lemma heap_fill_old: "heap (fill_old a cs i) = heap a"
proof (induction a cs i rule: fill_old.induct)
  case (1 a cs i)
  show ?case
  proof (cases "entry a cs")
    case None
    then show ?thesis by (simp add: fill_old.simps [of a cs i])
  next
    case (Some old)
    show ?thesis
    proof (cases "i < MRLColumnSizeInfo.colEnd old - 1 \<and> free_slot a i")
      case False
      with Some show ?thesis by (auto simp: fill_old.simps [of a cs i])
    next
      case True
      with Some "1.IH" [of old] show ?thesis
        by (simp add: fill_old.simps [of a cs i] heap_put_ref)
    qed
  qed
qed

lemma heap_fill_new:
  "e \<in> set (heap (fst (fill_new ts g k s col a i b)))
     \<Longrightarrow> e \<in> set (heap a) \<or> e = fst (new_info ts g k s col)"
proof (induction ts g k s col a i b rule: fill_new.induct)
  case (1 ts g k s col a i bound)
  show ?case
  proof (cases "i < bound \<and> free_slot a i")
    case False
    then have "fill_new ts g k s col a i bound = (a, col)"
      by (auto simp: fill_new.simps [of ts g k s col a i bound])
    with "1.prems" show ?thesis by simp
  next
    case True
    let ?c = "snd (new_info ts g k s col)"
    from True "1.prems"
    have "e \<in> set (heap (fst (fill_new ts g k s ?c (put_new a i (fst (new_info ts g k s col)))
             (i + 1) bound)))"
      by (simp add: fill_new.simps [of ts g k s col a i bound])
    with True "1.IH"
    have "e \<in> set (heap (put_new a i (fst (new_info ts g k s col))))
        \<or> e = fst (new_info ts g k s ?c)"
      by simp
    moreover have "fst (new_info ts g k s ?c) = fst (new_info ts g k s col)"
      by (rule new_info_inputs(1)) (rule new_info_keeps_inputs)
    ultimately show ?thesis by (auto simp: heap_put_new)
  qed
qed

lemma heap_each_child:
  assumes "e \<in> set (heap (fst (each_child ts g k col a)))"
  shows "e \<in> set (heap a) \<or> e = fst (new_info ts g k (the (colStart col)) col)"
proof (cases "colStart col")
  case None
  with assms show ?thesis by (simp add: each_child_def)
next
  case (Some s)
  show ?thesis
  proof (cases "entry a (s - 1)")
    case None
    with Some assms show ?thesis
      by (auto simp: each_child_def heap_put_new split: if_splits)
  next
    case cur: (Some c)
    with Some assms show ?thesis
      by (auto simp: each_child_def Let_def heap_put_new heap_fill_old
          split: if_splits dest: heap_fill_new)
  qed
qed

lemma heap_forEach_child:
  assumes "\<forall>e \<in> set (heap a). T e"
    and "\<And>j. j < length rest
           \<Longrightarrow> T (fst (new_info ts g (k + j) (the (colStart (rest ! j))) (rest ! j)))"
  shows "\<forall>e \<in> set (heap (fst (forEach_child ts g k rest a))). T e"
  using assms
proof (induction rest arbitrary: k a)
  case Nil
  then show ?case by simp
next
  case (Cons col rest)
  have first: "T (fst (new_info ts g k (the (colStart col)) col))"
    using Cons.prems(2) [of 0] by simp
  have a1: "\<forall>e \<in> set (heap (fst (each_child ts g k col a))). T e"
    using Cons.prems(1) first by (auto dest: heap_each_child)
  have later: "T (fst (new_info ts g (Suc k + j) (the (colStart (rest ! j))) (rest ! j)))"
    if "j < length rest" for j
    using Cons.prems(2) [of "Suc j"] that by simp
  from Cons.IH [OF a1 later] show ?case
    by (simp add: split_beta Let_def)
qed

subsection \<open>The second pass\<close>

lemma num_div_one: "num_div x 1 = x"
  by (cases x) simp_all

lemma flat_fields:
  "ref (flat e) = ref e" "colSpan (flat e) = 1" "width (flat e) = divided_width e"
  "MRLColumnSizeInfo.colEnd (flat e) = MRLColumnSizeInfo.colEnd e"
  "MRLColumnSizeInfo.widthSetByUser (flat e) = MRLColumnSizeInfo.widthSetByUser e"
  by (simp_all add: flat_def)

lemma flat_again: "flat (flat e) = flat e"
  by (simp add: flat_def divided_width_def width_div_def num_div_one)

lemma flat_as_updates: "e\<lparr>width := divided_width e, colSpan := 1\<rparr> = flat e"
  by (simp add: flat_def)

lemma ref_origin: "ref (origin ts g cs k) = k"
  by (simp add: origin_def new_info_def Let_def split_beta)

lemma tracked_flat:
  assumes "tracked ts g cs e"
  shows "tracked ts g cs (flat e)"
proof -
  let ?o = "origin ts g cs (ref e)"
  from assms have r: "ref e < length cs" and e: "e = ?o \<or> e = flat ?o"
    by (simp_all add: tracked_def)
  from e have "flat e = flat ?o"
  proof
    assume "e = ?o"
    then show ?thesis by simp
  next
    assume "e = flat ?o"
    then have "flat e = flat (flat ?o)" by simp
    then show ?thesis by (simp add: flat_again)
  qed
  with r show ?thesis by (simp add: tracked_def flat_fields ref_origin)
qed

lemma entry_in_heap: "entry a i = Some e \<Longrightarrow> e \<in> set (heap a)"
  by (auto simp: entry_def split: option.splits if_splits)

lemma slots_put_new: "slots (put_new a i e) = (slots a)(i \<mapsto> length (heap a))"
  by (simp add: put_new_def put_ref_def)

lemma heap_set_flat:
  "heap (set_flat a i)
     = (case slots a i of None \<Rightarrow> heap a | Some r \<Rightarrow> (heap a)[r := flat (heap a ! r)])"
proof (cases "slots a i")
  case None
  then show ?thesis by (simp add: set_flat_def modify_def)
next
  case (Some r)
  show ?thesis
  proof (cases "r < length (heap a)")
    case True
    with Some show ?thesis
      by (simp add: set_flat_def modify_def flat_as_updates)
  next
    case False
    then have "length (heap a) \<le> r" by simp
    with Some show ?thesis by (simp add: set_flat_def modify_def list_update_beyond)
  qed
qed

lemma slots_set_flat: "slots (set_flat a i) = slots a"
  by (simp add: set_flat_def modify_def split: option.splits)

text \<open>What the inner loop does to the array, in one statement.\<close>

lemma spread_effect:
  "j \<le> snd (spread a i j)
   \<and> (\<exists>xs. heap (fst (spread a i j)) = heap a @ xs
         \<and> (\<forall>x \<in> set xs. colSpan x = 1 \<and> (\<exists>e \<in> set (heap a). x = flat e)))
   \<and> (\<forall>k. k < i + j \<longrightarrow> slots (fst (spread a i j)) k = slots a k)
   \<and> (\<forall>k r. i + j \<le> k \<and> k < i + snd (spread a i j) \<and> slots (fst (spread a i j)) k = Some r
         \<longrightarrow> length (heap a) \<le> r)"
proof (induction a i j rule: spread.induct)
  case (1 a i j)
  show ?case
  proof (cases "entry a i")
    case None
    then have "spread a i j = (a, j)" by (simp add: spread.simps [of a i j])
    then show ?thesis by simp
  next
    case (Some ei)
    show ?thesis
    proof (cases "j < colSpan ei \<and> i + j + 1 < MRLColumnSizeInfo.colEnd ei
        \<and> \<not> (case entry a (i + j) of None \<Rightarrow> False | Some ej \<Rightarrow> stops_at ei ej)")
      case False
      with Some have "spread a i j = (a, j)" by (auto simp: spread.simps [of a i j])
      then show ?thesis by simp
    next
      case True
      let ?a = "put_new a (i + j) (flat ei)"
      from True Some have eq: "spread a i j = spread ?a i (j + 1)"
        by (simp add: spread.simps [of a i j])
      from True Some "1.IH" [of ei]
      have ih1: "j + 1 \<le> snd (spread ?a i (j + 1))"
        and ih2: "\<exists>xs. heap (fst (spread ?a i (j + 1))) = heap ?a @ xs
               \<and> (\<forall>x \<in> set xs. colSpan x = 1 \<and> (\<exists>e \<in> set (heap ?a). x = flat e))"
        and ih3: "\<forall>k. k < i + (j + 1) \<longrightarrow> slots (fst (spread ?a i (j + 1))) k = slots ?a k"
        and ih4: "\<forall>k r. i + (j + 1) \<le> k \<and> k < i + snd (spread ?a i (j + 1))
               \<and> slots (fst (spread ?a i (j + 1))) k = Some r \<longrightarrow> length (heap ?a) \<le> r"
        by simp_all
      from Some have in_heap: "ei \<in> set (heap a)" by (rule entry_in_heap)
      from ih2 obtain xs where xs: "heap (fst (spread ?a i (j + 1))) = heap ?a @ xs"
        "\<forall>x \<in> set xs. colSpan x = 1 \<and> (\<exists>e \<in> set (heap ?a). x = flat e)"
        by blast
      have c1: "j \<le> snd (spread a i j)" using ih1 eq by simp
      have "heap (fst (spread a i j)) = heap a @ (flat ei # xs)"
        using xs(1) eq by (simp add: heap_put_new)
      moreover have "\<forall>x \<in> set (flat ei # xs). colSpan x = 1 \<and> (\<exists>e \<in> set (heap a). x = flat e)"
      proof
        fix x assume "x \<in> set (flat ei # xs)"
        then consider "x = flat ei" | "x \<in> set xs" by auto
        then show "colSpan x = 1 \<and> (\<exists>e \<in> set (heap a). x = flat e)"
        proof cases
          case 1
          with in_heap show ?thesis by (auto simp: flat_fields)
        next
          case 2
          with xs(2) obtain e where e: "colSpan x = 1" "e \<in> set (heap ?a)" "x = flat e" by blast
          from e(2) have "e \<in> set (heap a) \<or> e = flat ei" by (auto simp: heap_put_new)
          with e in_heap show ?thesis by (auto simp: flat_again)
        qed
      qed
      ultimately have c2: "\<exists>xs. heap (fst (spread a i j)) = heap a @ xs
         \<and> (\<forall>x \<in> set xs. colSpan x = 1 \<and> (\<exists>e \<in> set (heap a). x = flat e))"
        by blast
      have c3: "\<forall>k. k < i + j \<longrightarrow> slots (fst (spread a i j)) k = slots a k"
        using ih3 eq by (simp add: slots_put_new)
      have c4: "\<forall>k r. i + j \<le> k \<and> k < i + snd (spread a i j) \<and> slots (fst (spread a i j)) k = Some r
         \<longrightarrow> length (heap a) \<le> r"
      proof (intro allI impI)
        fix k r
        assume h: "i + j \<le> k \<and> k < i + snd (spread a i j) \<and> slots (fst (spread a i j)) k = Some r"
        show "length (heap a) \<le> r"
        proof (cases "k = i + j")
          case True
          with h eq ih3 have "slots ?a (i + j) = Some r" by simp
          then show ?thesis by (simp add: slots_put_new)
        next
          case False
          with h have k1: "i + (j + 1) \<le> k" by simp
          from h eq have k2: "k < i + snd (spread ?a i (j + 1))"
            and k3: "slots (fst (spread ?a i (j + 1))) k = Some r"
            by simp_all
          from ih4 k1 k2 k3 have "length (heap ?a) \<le> r" by blast
          then show ?thesis by (simp add: heap_put_new)
        qed
      qed
      from c1 c2 c3 c4 show ?thesis by blast
    qed
  qed
qed

lemma grows_flat_spread: "grows_flat a (fst (spread a i j))"
proof -
  from spread_effect [of j a i] obtain xs where
    xs: "heap (fst (spread a i j)) = heap a @ xs" "\<forall>x \<in> set xs. colSpan x = 1"
    by blast
  then show ?thesis
    by (auto simp: grows_flat_def nth_append)
qed

lemma grows_flat_set_flat: "grows_flat a (set_flat a i)"
proof (cases "slots a i")
  case None
  then show ?thesis by (simp add: grows_flat_def heap_set_flat)
next
  case (Some r0)
  have "(r < length (heap a) \<and> (heap a)[r0 := flat (heap a ! r0)] ! r = heap a ! r)
      \<or> colSpan ((heap a)[r0 := flat (heap a ! r0)] ! r) = 1"
    if "r < length (heap a)" for r
    using that by (cases "r = r0") (simp_all add: flat_fields)
  with Some show ?thesis by (simp add: grows_flat_def heap_set_flat)
qed

lemma small_grows: "small a r \<Longrightarrow> grows_flat a b \<Longrightarrow> small b r"
  by (auto simp: small_def grows_flat_def)

lemma heap_flatten:
  assumes "\<forall>e \<in> set (heap a). P e" and "\<And>e. P e \<Longrightarrow> P (flat e)"
  shows "\<forall>e \<in> set (heap (flatten a i)). P e"
  using assms(1)
proof (induction a i rule: flatten.induct)
  case (1 a i)
  show ?case
  proof (cases "i < int (len a)")
    case False
    then have "flatten a i = a" by (simp add: flatten.simps [of a i])
    with "1.prems" show ?thesis by simp
  next
    case in_range: True
    show ?thesis
    proof (cases "entry a i")
      case None
      with in_range have "flatten a i = flatten a (i + 1)" by (simp add: flatten.simps [of a i])
      with "1.IH"(1) [OF in_range None "1.prems"] show ?thesis by simp
    next
      case (Some ei)
      show ?thesis
      proof (cases "1 < colSpan ei")
        case False
        with in_range Some have "flatten a i = flatten a (i + 1)"
          by (simp add: flatten.simps [of a i])
        with "1.IH"(3) [OF in_range Some False "1.prems"] show ?thesis by simp
      next
        case True
        let ?a1 = "fst (spread a i 1)"
        let ?a2 = "set_flat ?a1 i"
        from in_range Some True
        have eq: "flatten a i = flatten ?a2 (i + (snd (spread a i 1) - 1) + 1)"
          by (simp add: flatten.simps [of a i])
        from spread_effect [of 1 a i] obtain xs where
          xs: "heap ?a1 = heap a @ xs" "\<forall>x \<in> set xs. \<exists>e \<in> set (heap a). x = flat e"
          by blast
        with "1.prems" assms(2) have p1: "\<forall>e \<in> set (heap ?a1). P e" by auto
        have p2: "\<forall>e \<in> set (heap ?a2). P e"
        proof (cases "slots ?a1 i")
          case None
          with p1 show ?thesis by (simp add: heap_set_flat)
        next
          case r: (Some r)
          show ?thesis
          proof (cases "r < length (heap ?a1)")
            case True
            with p1 have "P (flat (heap ?a1 ! r))" by (simp add: assms(2))
            with p1 r show ?thesis
              by (auto simp: heap_set_flat dest!: subsetD [OF set_update_subset_insert])
          next
            case False
            then have "length (heap ?a1) \<le> r" by simp
            with p1 r show ?thesis by (simp add: heap_set_flat list_update_beyond)
          qed
        qed
        from "1.IH"(2) [OF in_range Some True p2] eq show ?thesis by simp
      qed
    qed
  qed
qed

lemma done_upto_less:
  assumes "done_upto a i" and "i' \<le> i"
  shows "done_upto a i'"
  unfolding done_upto_def
proof (intro allI impI)
  fix k r assume "0 \<le> k \<and> k < i' \<and> slots a k = Some r"
  with assms(2) have "0 \<le> k \<and> k < i \<and> slots a k = Some r" by simp
  with assms(1) show "small a r" unfolding done_upto_def by blast
qed

lemma done_upto_next:
  assumes "done_upto a i" and "\<And>r. slots a i = Some r \<Longrightarrow> small a r"
  shows "done_upto a (i + 1)"
  unfolding done_upto_def
proof (intro allI impI)
  fix k r assume h: "0 \<le> k \<and> k < i + 1 \<and> slots a k = Some r"
  show "small a r"
  proof (cases "k = i")
    case True
    with h assms(2) show ?thesis by simp
  next
    case False
    with h have "0 \<le> k \<and> k < i \<and> slots a k = Some r" by simp
    with assms(1) show ?thesis unfolding done_upto_def by blast
  qed
qed

lemma getCalcWidth_keeps:
  "gridColumnSpan (snd (getCalcWidth ts g c)) = gridColumnSpan c"
  "widthSetByUser (snd (getCalcWidth ts g c)) = widthSetByUser c"
  using same_but_cache_fields [OF same_but_cache_getCalcWidth [of c ts g]]
  by (simp_all add: gridColumnSpan_def)

lemma new_info_fields:
  "ref (fst (new_info ts g k s c)) = k"
  "colSpan (fst (new_info ts g k s c)) = gridColumnSpan c"
  "MRLColumnSizeInfo.widthSetByUser (fst (new_info ts g k s c)) = widthSetByUser c"
  "MRLColumnSizeInfo.colEnd (fst (new_info ts g k s c)) = s + gridColumnSpan c"
  "width (fst (new_info ts g k s c))
     = (if widthSetByUser c \<or> columnWidthSetByUser g
        then Some (parseInt ts (fst (getCalcWidth ts g c))) else None)"
  by (cases "widthSetByUser c \<or> columnWidthSetByUser g";
      simp add: new_info_def case_prod_beta getCalcWidth_keeps)+

lemma small_set_flat: "slots a i = Some r \<Longrightarrow> small (set_flat a i) r"
  by (simp add: small_def heap_set_flat flat_fields)

lemma done_upto_flatten:
  assumes "done_upto a i"
  shows "done_upto (flatten a i) (int (len (flatten a i)))"
  using assms
proof (induction a i rule: flatten.induct)
  case (1 a i)
  show ?case
  proof (cases "i < int (len a)")
    case False
    then have "flatten a i = a" by (simp add: flatten.simps [of a i])
    with False done_upto_less [OF "1.prems", of "int (len a)"] show ?thesis by simp
  next
    case in_range: True
    show ?thesis
    proof (cases "entry a i")
      case None
      with in_range have eq: "flatten a i = flatten a (i + 1)"
        by (simp add: flatten.simps [of a i])
      have "done_upto a (i + 1)"
      proof (rule done_upto_next [OF "1.prems"])
        fix r assume "slots a i = Some r"
        with None show "small a r" by (auto simp: entry_def small_def split: if_splits)
      qed
      with "1.IH"(1) [OF in_range None] eq show ?thesis by simp
    next
      case (Some ei)
      show ?thesis
      proof (cases "1 < colSpan ei")
        case False
        with in_range Some have eq: "flatten a i = flatten a (i + 1)"
          by (simp add: flatten.simps [of a i])
        have "done_upto a (i + 1)"
        proof (rule done_upto_next [OF "1.prems"])
          fix r assume "slots a i = Some r"
          with Some False show "small a r" by (auto simp: entry_def small_def split: if_splits)
        qed
        with "1.IH"(3) [OF in_range Some False] eq show ?thesis by simp
      next
        case True
        let ?a1 = "fst (spread a i 1)"
        let ?j = "snd (spread a i 1)"
        let ?a2 = "set_flat ?a1 i"
        from in_range Some True
        have eq: "flatten a i = flatten ?a2 (i + (?j - 1) + 1)"
          by (simp add: flatten.simps [of a i])
        from spread_effect [of 1 a i]
        have s3: "\<forall>k. k < i + 1 \<longrightarrow> slots ?a1 k = slots a k"
          and s4: "\<forall>k r. i + 1 \<le> k \<and> k < i + ?j \<and> slots ?a1 k = Some r \<longrightarrow> length (heap a) \<le> r"
          by blast+
        have g1: "grows_flat a ?a1" by (rule grows_flat_spread)
        have g2: "grows_flat ?a1 ?a2" by (rule grows_flat_set_flat)
        have "done_upto ?a2 (i + (?j - 1) + 1)"
          unfolding done_upto_def
        proof (intro allI impI)
          fix k r assume h: "0 \<le> k \<and> k < i + (?j - 1) + 1 \<and> slots ?a2 k = Some r"
          then have k: "0 \<le> k" "k < i + ?j" and sl: "slots ?a1 k = Some r"
            by (simp_all add: slots_set_flat)
          consider "k < i" | "k = i" | "i + 1 \<le> k" by linarith
          then show "small ?a2 r"
          proof cases
            case 1
            with s3 sl have "slots a k = Some r" by simp
            with 1 k "1.prems" have "small a r" by (auto simp: done_upto_def)
            then show ?thesis using g1 g2 by (blast intro: small_grows)
          next
            case 2
            with sl show ?thesis by (simp add: small_set_flat)
          next
            case 3
            with s4 k sl have "length (heap a) \<le> r" by blast
            with g1 have "small ?a1 r" by (auto simp: small_def grows_flat_def)
            then show ?thesis using g2 by (rule small_grows)
          qed
        qed
        from "1.IH"(2) [OF in_range Some True this] eq show ?thesis by simp
      qed
    qed
  qed
qed

lemma origin_fields:
  "colSpan (origin ts g cs k) = gridColumnSpan (cs ! k)"
  "MRLColumnSizeInfo.widthSetByUser (origin ts g cs k) = widthSetByUser (cs ! k)"
  "widthSetByUser (cs ! k)
     \<Longrightarrow> width (origin ts g cs k) = Some (parseInt ts (fst (getCalcWidth ts g (cs ! k))))"
  by (simp_all add: origin_def new_info_fields)

text \<open>
  C10. The reconciled sizes are flat: for every list of child columns, every defined entry
  of the array returned by \<open>getInitialChildColumnSizes\<close> has a \<open>colSpan\<close> of at
  most 1, and of exactly 1 when every child has a span of at least 1 (no \<open>colEnd\<close>
  at or before its \<open>colStart\<close>); the second pass lowers the spans greater than 1 and
  leaves the others. The entry refers to a child of the list, and an entry whose original
  span was greater than 1 and whose width was set by the user has, as its width, the
  parsed \<open>calcWidth\<close> of its column divided by that original span.
\<close>

theorem C10_flattened:
  "\<forall>i e. 0 \<le> i \<and> i < int (len (fst (getInitialChildColumnSizes ts g children)))
         \<and> entry (fst (getInitialChildColumnSizes ts g children)) i = Some e
     \<longrightarrow> colSpan e \<le> 1
         \<and> ((\<forall>c \<in> set children. 1 \<le> gridColumnSpan c) \<longrightarrow> colSpan e = 1)
         \<and> ref e < length children
         \<and> (MRLColumnSizeInfo.widthSetByUser e \<and> 1 < gridColumnSpan (children ! ref e)
              \<longrightarrow> width e
                   = Some (num_div (parseInt ts (fst (getCalcWidth ts g (children ! ref e))))
                            (gridColumnSpan (children ! ref e))))"
proof (intro allI impI)
  fix i e
  let ?a0 = "fst (forEach_child ts g 0 children empty_array)"
  let ?A = "fst (getInitialChildColumnSizes ts g children)"
  assume h: "0 \<le> i \<and> i < int (len ?A) \<and> entry ?A i = Some e"
  have A: "?A = flatten ?a0 0"
    by (simp add: getInitialChildColumnSizes_def split_beta)
  have "\<forall>x \<in> set (heap ?a0). tracked ts g children x"
  proof (rule heap_forEach_child)
    show "\<forall>x \<in> set (heap empty_array). tracked ts g children x"
      by (simp add: empty_array_def)
  next
    fix j assume "j < length children"
    then show "tracked ts g children
        (fst (new_info ts g (0 + j) (the (colStart (children ! j))) (children ! j)))"
      using ref_origin [of ts g children j] by (simp add: tracked_def origin_def)
  qed
  then have "\<forall>x \<in> set (heap ?A). tracked ts g children x"
    unfolding A by (rule heap_flatten) (rule tracked_flat)
  moreover from h have in_heap: "e \<in> set (heap ?A)" by (blast intro: entry_in_heap)
  ultimately have t: "tracked ts g children e" by blast
  let ?o = "origin ts g children (ref e)"
  from t have r: "ref e < length children" and cases: "e = ?o \<or> e = flat ?o"
    by (simp_all add: tracked_def)
  have "done_upto ?a0 0" by (auto simp: done_upto_def)
  then have "done_upto ?A (int (len ?A))"
    unfolding A by (rule done_upto_flatten)
  with h have le: "colSpan e \<le> 1"
    by (auto simp: done_upto_def small_def entry_def split: option.splits if_splits)
  have o_span: "colSpan ?o = gridColumnSpan (children ! ref e)"
    by (simp add: origin_fields)
  from cases have span: "colSpan e = colSpan ?o \<or> colSpan e = 1"
  proof
    assume "e = ?o"
    then have "colSpan e = colSpan ?o" by (rule arg_cong)
    then show ?thesis by simp
  next
    assume "e = flat ?o"
    then have "colSpan e = colSpan (flat ?o)" by (rule arg_cong)
    then show ?thesis by (simp add: flat_fields)
  qed
  have one: "colSpan e = 1" if "\<forall>c \<in> set children. 1 \<le> gridColumnSpan c"
  proof -
    from that r have "1 \<le> gridColumnSpan (children ! ref e)" by simp
    with span o_span have "1 \<le> colSpan e" by auto
    with le show ?thesis by simp
  qed
  have w: "width e = Some (num_div (parseInt ts (fst (getCalcWidth ts g (children ! ref e))))
                            (gridColumnSpan (children ! ref e)))"
    if "MRLColumnSizeInfo.widthSetByUser e \<and> 1 < gridColumnSpan (children ! ref e)"
  proof -
    have "e \<noteq> ?o"
    proof
      assume "e = ?o"
      then have "colSpan e = colSpan ?o" by (rule arg_cong)
      with o_span le that show False by simp
    qed
    with cases have e: "e = flat ?o" by simp
    then have "MRLColumnSizeInfo.widthSetByUser e = MRLColumnSizeInfo.widthSetByUser (flat ?o)"
      by (rule arg_cong)
    with that have u: "widthSetByUser (children ! ref e)"
      by (simp add: flat_fields origin_fields)
    have "width (flat ?o) = Some (num_div (parseInt ts (fst (getCalcWidth ts g (children ! ref e))))
                            (gridColumnSpan (children ! ref e)))"
      using u by (simp add: flat_fields divided_width_def width_div_def origin_fields)
    moreover from e have "width e = width (flat ?o)" by (rule arg_cong)
    ultimately show ?thesis by simp
  qed
  from le one r w
  show "colSpan e \<le> 1
         \<and> ((\<forall>c \<in> set children. 1 \<le> gridColumnSpan c) \<longrightarrow> colSpan e = 1)
         \<and> ref e < length children
         \<and> (MRLColumnSizeInfo.widthSetByUser e \<and> 1 < gridColumnSpan (children ! ref e)
              \<longrightarrow> width e
                   = Some (num_div (parseInt ts (fst (getCalcWidth ts g (children ! ref e))))
                            (gridColumnSpan (children ! ref e))))"
    by blast
qed

theorem C10_flattened_witness:
  "list_all (\<lambda>c. 1 \<le> gridColumnSpan c) example_children
   \<and> gridColumnSpan (example_children ! 0) = 3
   \<and> parseInt decimal (fst (getCalcWidth decimal example_grid (example_children ! 0))) = Fin 300
   \<and> (\<exists>e. entry (fst (getInitialChildColumnSizes decimal example_grid example_children)) 2 = Some e
          \<and> ref e = 0 \<and> MRLColumnSizeInfo.widthSetByUser e
          \<and> colSpan e = 1 \<and> width e = Some (Fin 100))"
proof -
  let ?A = "fst (getInitialChildColumnSizes decimal example_grid example_children)"
  obtain e where e: "e = the (entry ?A 2)" by simp
  have spans: "list_all (\<lambda>c. 1 \<le> gridColumnSpan c) example_children"
    by code_simp
  have n: "2 < int (len ?A)" "entry ?A 2 \<noteq> None"
    "ref (the (entry ?A 2)) = 0" "MRLColumnSizeInfo.widthSetByUser (the (entry ?A 2))"
    by code_simp+
  have v: "gridColumnSpan (example_children ! 0) = 3"
    "parseInt decimal (fst (getCalcWidth decimal example_grid (example_children ! 0))) = Fin 300"
    "num_div (Fin 300) 3 = Fin 100"
    by code_simp+
  from n e have at: "entry ?A 2 = Some e" "ref e = 0" "MRLColumnSizeInfo.widthSetByUser e"
    by auto
  from C10_flattened [rule_format, of 2 decimal example_grid example_children e] n(1) at spans v
  have "colSpan e = 1 \<and> width e = Some (Fin 100)"
    by (simp add: list_all_iff)
  with spans v at show ?thesis by blast
qed

text \<open>
  The claim as it was stated, \<open>colSpan\<close> equal to 1 for every list of children, fails
  for a child whose \<open>colEnd\<close> equals its \<open>colStart\<close>: its entry keeps the span 0.
\<close>

theorem C10_flattened_counterexample:
  "len (fst (getInitialChildColumnSizes decimal example_grid [layout_column 2 2 Undefined])) = 2
   \<and> entry (fst (getInitialChildColumnSizes decimal example_grid [layout_column 2 2 Undefined])) 1
       = Some \<lparr>ref = 0, width = None, colSpan = 0, MRLColumnSizeInfo.colEnd = 2,
               MRLColumnSizeInfo.widthSetByUser = False\<rparr>"
  by code_simp

section \<open>Pinning and unpinning: the claims\<close>

lemma indexOf_ge: "- 1 \<le> indexOf xs x"
  by (induction xs) (auto simp: Let_def)

lemma indexOf_absent: "indexOf xs x = - 1 \<longleftrightarrow> x \<notin> set xs"
proof (induction xs)
  case Nil
  show ?case by simp
next
  case (Cons y ys)
  have "- 1 \<le> indexOf ys x" by (rule indexOf_ge)
  with Cons show ?case by (auto simp: Let_def)
qed

lemma indexOf_present: "x \<in> set xs \<Longrightarrow> 0 \<le> indexOf xs x \<and> indexOf xs x < int (length xs)"
  by (induction xs) (auto simp: Let_def)

lemma set_splice_insert: "set (splice_insert i x xs) = insert x (set xs)"
proof -
  have "set (take k xs @ x # drop k xs) = insert x (set xs)" for k
    by (metis append_take_drop_id list.simps(15) set_append Un_insert_right)
  then show ?thesis by (simp add: splice_insert_def Let_def)
qed

lemma splice_remove_only_occurrence:
  assumes "x \<in> set xs" and "count_list xs x \<le> 1"
  shows "x \<notin> set (splice_remove (indexOf xs x) xs)"
  using assms
proof (induction xs)
  case Nil
  then show ?case by simp
next
  case (Cons y ys)
  show ?case
  proof (cases "y = x")
    case True
    with Cons.prems have "count_list ys x = 0" by simp
    then have "x \<notin> set ys" by (simp add: count_list_0_iff)
    with True show ?thesis by (simp add: splice_remove_def splice_start_def)
  next
    case False
    with Cons.prems have in_ys: "x \<in> set ys" and cnt: "count_list ys x \<le> 1" by simp_all
    from in_ys have pos: "0 \<le> indexOf ys x" "indexOf ys x < int (length ys)"
      by (simp_all add: indexOf_present)
    from pos have le: "nat (indexOf ys x) \<le> length ys" by linarith
    from Cons.IH [OF in_ys cnt] pos le False show ?thesis
      by (simp add: splice_remove_def splice_start_def Let_def nat_add_distrib min_def)
  qed
qed

lemma keeps_pinningD:
  assumes "keeps_pinning env"
  shows "u_pinned (cols (hook_run env h w) c) = u_pinned (cols w c)"
    and "parent (cols (hook_run env h w) c) = parent (cols w c)"
    and "attached (hook_run env h w) = attached w"
    and "u_init (grid (hook_run env h w)) = u_init (grid w)"
    and "pinnedColumns (grid (hook_run env h w)) = pinnedColumns (grid w)"
    and "u_pinnedColumns (grid (hook_run env h w)) = u_pinnedColumns (grid w)"
    and "u_unpinnedColumns (grid (hook_run env h w)) = u_unpinnedColumns (grid w)"
proof -
  from assms have eq: "pinning_state (hook_run env h w) = pinning_state w"
    by (simp add: keeps_pinning_def)
  then have "(\<lambda>c. u_pinned (cols (hook_run env h w) c)) = (\<lambda>c. u_pinned (cols w c))"
    and "(\<lambda>c. parent (cols (hook_run env h w) c)) = (\<lambda>c. parent (cols w c))"
    by (simp_all add: pinning_state_def)
  then show "u_pinned (cols (hook_run env h w) c) = u_pinned (cols w c)"
    and "parent (cols (hook_run env h w) c) = parent (cols w c)"
    by (auto dest: fun_cong)
  from eq show "attached (hook_run env h w) = attached w"
    and "u_init (grid (hook_run env h w)) = u_init (grid w)"
    and "pinnedColumns (grid (hook_run env h w)) = pinnedColumns (grid w)"
    and "u_pinnedColumns (grid (hook_run env h w)) = u_pinnedColumns (grid w)"
    and "u_unpinnedColumns (grid (hook_run env h w)) = u_unpinnedColumns (grid w)"
    by (simp_all add: pinning_state_def)
qed

lemma update_simps:
  "cols (update_column w c f) = (cols w)(c := f (cols w c))"
  "grid (update_column w c f) = grid w"
  "attached (update_column w c f) = attached w"
  "cols (update_grid w k) = cols w"
  "grid (update_grid w k) = k (grid w)"
  "attached (update_grid w k) = attached w"
  by (simp_all add: update_column_def update_grid_def)

lemma pin_top_level:
  assumes "keeps_pinning env" and "\<not> get_pinned (cols w c)" and "parent (cols w c) = None"
  shows "pin env w c index =
           Some (pin_here env (if attached w then hook_run env (EndEdit True) w else w) c index)"
  using assms by (subst pin.simps) (simp add: Let_def keeps_pinningD get_pinned_def)

lemma unpin_top_level:
  assumes "keeps_pinning env" and "get_pinned (cols w c)" and "parent (cols w c) = None"
  shows "unpin env w c index =
           Some (unpin_here env (if attached w then hook_run env (EndEdit True) w else w) c index)"
  using assms by (subst unpin.simps) (simp add: Let_def keeps_pinningD get_pinned_def)

lemma pin_here_no_index:
  assumes k: "keeps_pinning env" and a: "attached w"
    and u: "\<not> u_pinned (cols w c)" and p: "parent (cols w c) = None"
  shows "\<exists>w'. pin_here env w c None = Inr (True, w')
           \<and> u_pinned (cols w' c) \<and> parent (cols w' c) = None \<and> attached w'
           \<and> c \<in> set (u_pinnedColumns (grid w'))
           \<and> (c \<notin> set (u_pinnedColumns (grid w)) \<and> count_list (u_unpinnedColumns (grid w)) c \<le> 1
                \<longrightarrow> c \<notin> set (u_unpinnedColumns (grid w')))"
  using a u p
  by (auto simp: pin_here_def Let_def pinnable_def get_pinned_def columnGroup_def
      keeps_pinningD [OF k] update_simps set_splice_insert indexOf_absent
      splice_remove_only_occurrence)

lemma unpin_here_no_index:
  assumes k: "keeps_pinning env" and a: "attached w"
    and u: "u_pinned (cols w c)"
  shows "\<exists>w'. unpin_here env w c None = Inr (True, w')
           \<and> \<not> u_pinned (cols w' c) \<and> attached w'
           \<and> c \<in> set (u_unpinnedColumns (grid w'))"
  using a u
  by (auto simp: unpin_here_def Let_def get_pinned_def columnGroup_def
      keeps_pinningD [OF k] update_simps set_splice_insert indexOf_absent)

lemma cacheCalcWidth_pinning:
  "u_pinned (cacheCalcWidth ts g c) = u_pinned c"
  "parent (cacheCalcWidth ts g c) = parent c"
  by (simp_all add: cacheCalcWidth_def Let_def)

lemma keeps_pinning_example_env: "keeps_pinning example_env"
  unfolding keeps_pinning_def
proof (intro allI)
  fix h w
  show "pinning_state (hook_run example_env h w) = pinning_state w"
    by (cases h) (simp_all add: example_env_def pinning_state_def cacheCalcWidth_pinning)
qed

text \<open>
  C3. Pinning moves the column into the fixed region of the grid: for every column that
  is not pinned, has no parent and is pinnable, \<open>pin()\<close> without an index returns
  \<open>true\<close>, and afterwards the getter \<open>pinned\<close> returns \<open>true\<close> and the column is a
  member of the grid's pinned collection. It is no longer a member of the unpinned
  collection provided it was not yet listed in the pinned collection and was listed at
  most once in the unpinned one: \<open>pin\<close> removes it from the unpinned collection only
  under the guard \<open>grid._pinnedColumns.indexOf(this) === -1\<close>, and only its first
  occurrence. The grid's methods and the subscribers are taken to keep the pinning state.
\<close>

theorem C3_pin:
  assumes "keeps_pinning env"
    and "\<not> get_pinned (cols w c)" and "parent (cols w c) = None" and "pinnable w c = Inr True"
  shows "\<exists>w'. pin env w c None = Some (Inr (True, w'))
           \<and> get_pinned (cols w' c)
           \<and> c \<in> set (u_pinnedColumns (grid w'))
           \<and> (c \<notin> set (u_pinnedColumns (grid w)) \<and> count_list (u_unpinnedColumns (grid w)) c \<le> 1
                \<longrightarrow> c \<notin> set (u_unpinnedColumns (grid w')))"
proof -
  let ?w0 = "hook_run env (EndEdit True) w"
  from assms(4) have att: "attached w" by (simp add: pinnable_def split: if_splits)
  from assms(1-3) att have call: "pin env w c None = Some (pin_here env ?w0 c None)"
    by (simp add: pin_top_level)
  from assms att have "attached ?w0" "\<not> u_pinned (cols ?w0 c)" "parent (cols ?w0 c) = None"
    by (simp_all add: keeps_pinningD get_pinned_def)
  from pin_here_no_index [OF assms(1) this] call assms(1) show ?thesis
    by (auto simp: get_pinned_def keeps_pinningD)
qed

theorem C3_pin_witness:
  "\<exists>w'. pin example_env example_world 1 None = Some (Inr (True, w'))
           \<and> get_pinned (cols w' 1)
           \<and> 1 \<in> set (u_pinnedColumns (grid w'))
           \<and> 1 \<notin> set (u_unpinnedColumns (grid w'))"
proof -
  have "\<not> get_pinned (cols example_world 1)" "parent (cols example_world 1) = None"
    "pinnable example_world 1 = Inr True"
    "1 \<notin> set (u_pinnedColumns (grid example_world))"
    "count_list (u_unpinnedColumns (grid example_world)) 1 \<le> 1"
    by (simp_all add: example_world_def example_grid_def new_column_def get_pinned_def pinnable_def)
  with C3_pin [OF keeps_pinning_example_env, of example_world 1] show ?thesis
    by auto
qed

text \<open>
  The claim as it was stated, without the proviso, fails. Column 1 is not pinned, has no
  parent and is pinnable; when it is already listed in \<open>_pinnedColumns\<close>, \<open>pin()\<close>
  returns \<open>true\<close> and leaves both collections as they were; when it is listed twice
  in \<open>_unpinnedColumns\<close>, \<open>pin()\<close> returns \<open>true\<close> and removes the first
  occurrence only. Either way it is still a member of \<open>_unpinnedColumns\<close>.
\<close>

theorem C3_pin_counterexample:
  "\<not> get_pinned (cols listed_in_both_world 1)
   \<and> parent (cols listed_in_both_world 1) = None
   \<and> pinnable listed_in_both_world 1 = Inr True
   \<and> outcome 1 (pin example_env listed_in_both_world 1 None)
       = Some (Inr (True, True, [0, 1], [1, 2]))
   \<and> \<not> get_pinned (cols listed_twice_world 1)
   \<and> parent (cols listed_twice_world 1) = None
   \<and> pinnable listed_twice_world 1 = Inr True
   \<and> outcome 1 (pin example_env listed_twice_world 1 None)
       = Some (Inr (True, True, [0, 1], [2, 1]))"
proof -
  have both: "\<not> get_pinned (cols listed_in_both_world 1)
      \<and> parent (cols listed_in_both_world 1) = None
      \<and> pinnable listed_in_both_world 1 = Inr True
      \<and> outcome 1 (pin example_env listed_in_both_world 1 None)
          = Some (Inr (True, True, [0, 1], [1, 2]))"
    by (subst pin.simps)
      (simp add: outcome_def listed_in_both_world_def example_world_def example_grid_def
        new_column_def example_env_def get_pinned_def pinnable_def pin_here_def Let_def
        update_column_def update_grid_def columnGroup_def cacheCalcWidth_pinning)
  have twice: "\<not> get_pinned (cols listed_twice_world 1)
      \<and> parent (cols listed_twice_world 1) = None
      \<and> pinnable listed_twice_world 1 = Inr True
      \<and> outcome 1 (pin example_env listed_twice_world 1 None)
          = Some (Inr (True, True, [0, 1], [2, 1]))"
    by (subst pin.simps)
      (simp add: outcome_def listed_twice_world_def example_world_def example_grid_def
        new_column_def example_env_def get_pinned_def pinnable_def pin_here_def Let_def
        update_column_def update_grid_def columnGroup_def cacheCalcWidth_pinning
        splice_insert_def splice_remove_def splice_start_def)
  from both twice show ?thesis by simp
qed

text \<open>
  C4. Pinning and unpinning round-trip: for every top-level, unpinned, pinnable column,
  \<open>pin()\<close> and then \<open>unpin()\<close>, both without an index, return \<open>true\<close> both
  times, and afterwards the getter \<open>pinned\<close> returns \<open>false\<close> and the column is
  again a member of the grid's unpinned collection. The grid's methods and the
  subscribers are taken to keep the pinning state.
\<close>

theorem C4_pin_unpin:
  assumes "keeps_pinning env"
    and "\<not> get_pinned (cols w c)" and "parent (cols w c) = None" and "pinnable w c = Inr True"
  shows "\<exists>w1 w2. pin env w c None = Some (Inr (True, w1))
           \<and> unpin env w1 c None = Some (Inr (True, w2))
           \<and> \<not> get_pinned (cols w2 c)
           \<and> c \<in> set (u_unpinnedColumns (grid w2))"
proof -
  let ?w0 = "hook_run env (EndEdit True) w"
  from assms(4) have att: "attached w" by (simp add: pinnable_def split: if_splits)
  from assms(1-3) att have call: "pin env w c None = Some (pin_here env ?w0 c None)"
    by (simp add: pin_top_level)
  from assms att have "attached ?w0" "\<not> u_pinned (cols ?w0 c)" "parent (cols ?w0 c) = None"
    by (simp_all add: keeps_pinningD get_pinned_def)
  from pin_here_no_index [OF assms(1) this] obtain w1 where
    w1: "pin_here env ?w0 c None = Inr (True, w1)" "u_pinned (cols w1 c)"
      "parent (cols w1 c) = None" "attached w1"
    by blast
  let ?v = "hook_run env (EndEdit True) w1"
  from w1 assms(1) have again: "unpin env w1 c None = Some (unpin_here env ?v c None)"
    by (simp add: unpin_top_level get_pinned_def)
  from w1 assms(1) have "attached ?v" "u_pinned (cols ?v c)"
    by (simp_all add: keeps_pinningD)
  from unpin_here_no_index [OF assms(1) this] obtain w2 where
    w2: "unpin_here env ?v c None = Inr (True, w2)" "\<not> u_pinned (cols w2 c)"
      "c \<in> set (u_unpinnedColumns (grid w2))"
    by blast
  from call w1 again w2 show ?thesis by (simp add: get_pinned_def)
qed

theorem C4_pin_unpin_witness:
  "\<exists>w1 w2. pin example_env example_world 2 None = Some (Inr (True, w1))
           \<and> unpin example_env w1 2 None = Some (Inr (True, w2))
           \<and> \<not> get_pinned (cols w2 2)
           \<and> 2 \<in> set (u_unpinnedColumns (grid w2))"
proof -
  have "\<not> get_pinned (cols example_world 2)" "parent (cols example_world 2) = None"
    "pinnable example_world 2 = Inr True"
    by (simp_all add: example_world_def example_grid_def new_column_def get_pinned_def pinnable_def)
  with C4_pin_unpin [OF keeps_pinning_example_env, of example_world 2] show ?thesis
    by simp
qed

text \<open>
  C8. \<open>pin(index)\<close> with an index out of range fails without pinning: for every
  unpinned top-level column of a grid and every index that is negative or at least the
  number of pinned columns, \<open>pin(index)\<close> returns \<open>false\<close>, the getter
  \<open>pinned\<close> still returns \<open>false\<close>, and the grid's pinned and unpinned collections
  are unchanged. The number of pinned columns is the length of the grid's getter
  \<open>pinnedColumns\<close>, which the range check reads; the only call that leaves the
  component before the check is \<open>grid.endEdit\<close>, taken to keep the pinning state.
\<close>

theorem C8_pin_index_out_of_range:
  assumes "keeps_pinning env"
    and "\<not> get_pinned (cols w c)" and "parent (cols w c) = None" and "attached w"
    and "i < 0 \<or> int (length (pinnedColumns (grid w))) \<le> i"
  shows "\<exists>w'. pin env w c (Some i) = Some (Inr (False, w'))
           \<and> \<not> get_pinned (cols w' c)
           \<and> pinnedColumns (grid w') = pinnedColumns (grid w)
           \<and> u_pinnedColumns (grid w') = u_pinnedColumns (grid w)
           \<and> u_unpinnedColumns (grid w') = u_unpinnedColumns (grid w)"
proof -
  let ?w0 = "hook_run env (EndEdit True) w"
  from assms(1-4) have call: "pin env w c (Some i) = Some (pin_here env ?w0 c (Some i))"
    by (simp add: pin_top_level)
  from assms have "pin_here env ?w0 c (Some i) = Inr (False, ?w0)"
    by (auto simp: pin_here_def keeps_pinningD)
  with call assms(1,2) show ?thesis
    by (simp add: keeps_pinningD get_pinned_def)
qed

theorem C8_pin_index_out_of_range_witness:
  "outcome 1 (pin example_env example_world 1 (Some 1)) = Some (Inr (False, False, [0], [1, 2]))
   \<and> outcome 2 (pin example_env example_world 2 (Some (- 1))) = Some (Inr (False, False, [0], [1, 2]))"
proof -
  have h: "\<not> get_pinned (cols example_world 1)" "parent (cols example_world 1) = None"
    "\<not> get_pinned (cols example_world 2)" "parent (cols example_world 2) = None"
    "attached example_world" "int (length (pinnedColumns (grid example_world))) \<le> 1"
    by (simp_all add: example_world_def example_grid_def new_column_def get_pinned_def)
  have g: "u_pinnedColumns (grid example_world) = [0]"
    "u_unpinnedColumns (grid example_world) = [1, 2]"
    by (simp_all add: example_world_def example_grid_def)
  from h g C8_pin_index_out_of_range [OF keeps_pinning_example_env, of example_world 1 1]
    C8_pin_index_out_of_range [OF keeps_pinning_example_env, of example_world 2 "- 1"]
  show ?thesis by (auto simp: outcome_def)
qed

end
